theory Spec2Isabelle
  imports Main
begin

section \<open>Bytes and text\<close>

text \<open>
  The repository is Python. A \<^verbatim>\<open>bytes\<close> value is modelled as a list of
  \<^typ>\<open>char\<close> (a \<^typ>\<open>char\<close> is one byte), and so is a \<^verbatim>\<open>str\<close>: a
  \<^typ>\<open>char\<close> below 128 is the ASCII character, one from 128 on stands for a
  non-ASCII code point, which is all the code distinguishes
  (\<^verbatim>\<open>encode("ascii")\<close> raises on it).
\<close>

type_synonym bytes = "char list"

definition slice :: "'a list \<Rightarrow> nat \<Rightarrow> nat \<Rightarrow> 'a list" where
  \<comment> \<open>\<^verbatim>\<open>xs[i:j]\<close> for \<open>0 \<le> i\<close>, \<open>0 \<le> j\<close>: clipped at the end, empty when \<open>j \<le> i\<close>\<close>
  "slice xs i j = take (j - i) (drop i xs)"

section \<open>Binary patcher: offset patches (ios\_deb\_ip\_changer\_final.py)\<close>

text \<open>
  \<^verbatim>\<open>apply_latency_patches\<close> reads the file into a \<^verbatim>\<open>bytearray\<close>, runs
  over a table of \<open>(offset, old, new, description)\<close> and writes the file back when
  at least one entry was applied. \<open>apply_patch\<close> is the body of its loop for one
  entry: the new content of \<^verbatim>\<open>data\<close> and whether \<^verbatim>\<open>applied_count\<close>
  was incremented.
\<close>

type_synonym patch = "nat \<times> bytes \<times> bytes \<times> string"

definition apply_patch :: "bytes \<Rightarrow> patch \<Rightarrow> bytes \<times> bool" where
  "apply_patch data p =
     (case p of (offset, old, new, desc) \<Rightarrow>
        if offset + length old > length data then (data, False)
        else
          let actual = slice data offset (offset + length old) in
          if actual = old
          then (take offset data @ new @ drop (offset + length old) data, True)
          else (data, False))"

fun patch_loop :: "bytes \<Rightarrow> nat \<Rightarrow> patch list \<Rightarrow> bytes \<times> nat" where
  "patch_loop data applied_count [] = (data, applied_count)"
| "patch_loop data applied_count (p # ps) =
     (case apply_patch data p of
        (data', True) \<Rightarrow> patch_loop data' (applied_count + 1) ps
      | (data', False) \<Rightarrow> patch_loop data' applied_count ps)"

definition patches :: "patch list" where
  "patches =
    [(0x3D67C, [CHR 0x08, CHR 0x07, CHR 0x80, CHR 0x52], [CHR 0x28, CHR 0x00, CHR 0x80, CHR 0x52], ''W8 = 56 -> 1''),
     (0x3D690, [CHR 0x08, CHR 0x0F, CHR 0x80, CHR 0x52], [CHR 0x28, CHR 0x00, CHR 0x80, CHR 0x52], ''W8 = 120 -> 1''),
     (0x4885C, [CHR 0x08, CHR 0x07, CHR 0x80, CHR 0x52], [CHR 0x28, CHR 0x00, CHR 0x80, CHR 0x52], ''W8 = 56 -> 1''),
     (0x48870, [CHR 0x08, CHR 0x0F, CHR 0x80, CHR 0x52], [CHR 0x28, CHR 0x00, CHR 0x80, CHR 0x52], ''W8 = 120 -> 1''),
     (0x4FA44, [CHR 0x08, CHR 0x07, CHR 0x80, CHR 0x52], [CHR 0x28, CHR 0x00, CHR 0x80, CHR 0x52], ''W8 = 56 -> 1''),
     (0x4FA58, [CHR 0x08, CHR 0x0F, CHR 0x80, CHR 0x52], [CHR 0x28, CHR 0x00, CHR 0x80, CHR 0x52], ''W8 = 120 -> 1''),
     (0x179D50, [CHR 0x08, CHR 0x07, CHR 0x80, CHR 0x52], [CHR 0x28, CHR 0x00, CHR 0x80, CHR 0x52], ''W8 = 56 -> 1''),
     (0x179D64, [CHR 0x08, CHR 0x0F, CHR 0x80, CHR 0x52], [CHR 0x28, CHR 0x00, CHR 0x80, CHR 0x52], ''W8 = 120 -> 1''),
     (0x185044, [CHR 0x08, CHR 0x07, CHR 0x80, CHR 0x52], [CHR 0x28, CHR 0x00, CHR 0x80, CHR 0x52], ''W8 = 56 -> 1''),
     (0x185058, [CHR 0x08, CHR 0x0F, CHR 0x80, CHR 0x52], [CHR 0x28, CHR 0x00, CHR 0x80, CHR 0x52], ''W8 = 120 -> 1''),
     (0x18C258, [CHR 0x08, CHR 0x07, CHR 0x80, CHR 0x52], [CHR 0x28, CHR 0x00, CHR 0x80, CHR 0x52], ''W8 = 56 -> 1''),
     (0x18C26C, [CHR 0x08, CHR 0x0F, CHR 0x80, CHR 0x52], [CHR 0x28, CHR 0x00, CHR 0x80, CHR 0x52], ''W8 = 120 -> 1''),
     (0x49054, [CHR 0x08, CHR 0x7D, CHR 0x80, CHR 0x52], [CHR 0x28, CHR 0x00, CHR 0x80, CHR 0x52], ''W8 = 1000 -> 1''),
     (0x49064, [CHR 0x02, CHR 0x7D, CHR 0x80, CHR 0xD2], [CHR 0x22, CHR 0x00, CHR 0x80, CHR 0xD2], ''X2 = 1000 -> 1''),
     (0x50400, [CHR 0x08, CHR 0x7D, CHR 0x80, CHR 0x52], [CHR 0x28, CHR 0x00, CHR 0x80, CHR 0x52], ''W8 = 1000 -> 1''),
     (0x50410, [CHR 0x02, CHR 0x7D, CHR 0x80, CHR 0xD2], [CHR 0x22, CHR 0x00, CHR 0x80, CHR 0xD2], ''X2 = 1000 -> 1''),
     (0x524DC, [CHR 0x08, CHR 0x7D, CHR 0x80, CHR 0x52], [CHR 0x28, CHR 0x00, CHR 0x80, CHR 0x52], ''W8 = 1000 -> 1''),
     (0x524EC, [CHR 0x02, CHR 0x7D, CHR 0x80, CHR 0xD2], [CHR 0x22, CHR 0x00, CHR 0x80, CHR 0xD2], ''X2 = 1000 -> 1''),
     (0x60618, [CHR 0x03, CHR 0xFA, CHR 0x80, CHR 0x52], [CHR 0x23, CHR 0x00, CHR 0x80, CHR 0x52], ''W3 = 2000 -> 1''),
     (0x1A366C, [CHR 0x0A, CHR 0x7D, CHR 0x80, CHR 0x52], [CHR 0x2A, CHR 0x00, CHR 0x80, CHR 0x52], ''W10 = 1000 -> 1''),
     (0x1BD80C, [CHR 0x08, CHR 0x7D, CHR 0x80, CHR 0x52], [CHR 0x28, CHR 0x00, CHR 0x80, CHR 0x52], ''W8 = 1000 -> 1'')]"

definition apply_latency_patches :: "bytes \<Rightarrow> bytes \<times> bool" where
  \<comment> \<open>the content of the file afterwards, and the value returned\<close>
  "apply_latency_patches file =
     (case patch_loop file 0 patches of
        (data, applied_count) \<Rightarrow>
          if applied_count > 0 then (data, True) else (file, False))"

section \<open>Python primitives on sequences\<close>

datatype error =
    NameTooLong string  \<comment> \<open>\<^verbatim>\<open>ValueError\<close>: name too long for simple ar\<close>
  | HeaderNot60  \<comment> \<open>\<^verbatim>\<open>RuntimeError("Ar header not 60 bytes.")\<close>\<close>
  | MissingGlobalHeader  \<comment> \<open>the first 8 bytes are not the ar magic\<close>
  | TruncatedHeader  \<comment> \<open>fewer than 60 bytes where a member header starts\<close>
  | InvalidLiteralForInt string  \<comment> \<open>\<^verbatim>\<open>ValueError\<close> of \<^verbatim>\<open>int()\<close>\<close>
  | UnicodeEncodeError
  | UnicodeDecodeError
  | ReplacementLengthMismatch bytes  \<comment> \<open>\<^verbatim>\<open>RuntimeError\<close> of \<^verbatim>\<open>patch_branding\<close>\<close>
  | MissingRequiredMembers  \<comment> \<open>\<^verbatim>\<open>RuntimeError\<close> of \<^verbatim>\<open>_parse_deb\<close>\<close>
  | UnsupportedDataMember string
  | LZMAError
  | StopIteration  \<comment> \<open>\<^verbatim>\<open>next()\<close> on a generator that yields nothing\<close>

definition startswith :: "'a list \<Rightarrow> 'a list \<Rightarrow> bool" where
  \<comment> \<open>\<^verbatim>\<open>s.startswith(p)\<close>\<close>
  "startswith s p = (take (length p) s = p)"

definition endswith :: "'a list \<Rightarrow> 'a list \<Rightarrow> bool" where
  \<comment> \<open>\<^verbatim>\<open>s.endswith(p)\<close>\<close>
  "endswith s p = (length p \<le> length s \<and> drop (length s - length p) s = p)"

fun contains :: "'a list \<Rightarrow> 'a list \<Rightarrow> bool" where
  \<comment> \<open>\<^verbatim>\<open>sub in data\<close>, for \<^verbatim>\<open>bytes\<close> and \<^verbatim>\<open>str\<close>\<close>
  "contains sub [] = (sub = [])"
| "contains sub (x # xs) = (startswith (x # xs) sub \<or> contains sub xs)"

text \<open>
  \<^verbatim>\<open>data.replace(old, new)\<close>: every occurrence, left to right, without overlap;
  an empty \<open>old\<close> matches before every element and at the end.
\<close>

function replace :: "'a list \<Rightarrow> 'a list \<Rightarrow> 'a list \<Rightarrow> 'a list" where
  "replace old new data =
     (if old = [] then new @ concat (map (\<lambda>c. c # new) data)
      else if data = [] then []
      else if startswith data old then new @ replace old new (drop (length old) data)
      else hd data # replace old new (tl data))"
  by pat_completeness auto
termination
  by (relation "measure (\<lambda>(old, new, data). length data)") auto

text \<open>\<^verbatim>\<open>data.count(sub)\<close>: the occurrences that do not overlap.\<close>

function count_sub :: "'a list \<Rightarrow> 'a list \<Rightarrow> nat" where
  "count_sub sub data =
     (if sub = [] then length data + 1
      else if data = [] then 0
      else if startswith data sub then 1 + count_sub sub (drop (length sub) data)
      else count_sub sub (tl data))"
  by pat_completeness auto
termination
  by (relation "measure (\<lambda>(sub, data). length data)") auto

declare replace.simps [simp del] count_sub.simps [simp del]

definition is_ascii :: "string \<Rightarrow> bool" where
  "is_ascii s = list_all (\<lambda>c. of_char c < (128::nat)) s"

definition encode_ascii :: "string \<Rightarrow> error + bytes" where
  \<comment> \<open>\<^verbatim>\<open>s.encode("ascii")\<close>\<close>
  "encode_ascii s = (if is_ascii s then Inr s else Inl UnicodeEncodeError)"

section \<open>Binary patcher: literal patches\<close>







section \<open>Metadata patcher (change\_maintainer.py)\<close>

text \<open>
  \<^verbatim>\<open>modify_maintainer\<close> reads the control file as text, splits it into
  lines, rewrites them in one pass and writes the lines back, joined by newlines and
  ended by one. The model maps the text read to the text written; what the function
  prints is left out. \<^verbatim>\<open>str.splitlines\<close> breaks at the line boundaries
  below (and at U+2028 and U+2029, which a \<^typ>\<open>char\<close> cannot hold), taking
  CR LF as one.
\<close>

definition is_linebreak :: "char \<Rightarrow> bool" where
  "is_linebreak c =
     (c \<in> set [CHR 0x0A, CHR 0x0D, CHR 0x0B, CHR 0x0C, CHR 0x1C, CHR 0x1D, CHR 0x1E, CHR 0x85])"

fun splitlines_from :: "string \<Rightarrow> string \<Rightarrow> string list" where
  "splitlines_from cur [] = (if cur = [] then [] else [cur])"
| "splitlines_from cur (c # cs) =
     (if is_linebreak c then
        (case cs of
           d # ds \<Rightarrow>
             if c = CHR 0x0D \<and> d = CHR 0x0A then cur # splitlines_from [] ds
             else cur # splitlines_from [] cs
         | [] \<Rightarrow> cur # splitlines_from [] cs)
      else splitlines_from (cur @ [c]) cs)"

definition splitlines :: "string \<Rightarrow> string list" where
  "splitlines s = splitlines_from [] s"

fun join :: "'a list \<Rightarrow> 'a list list \<Rightarrow> 'a list" where
  "join sep [] = []"
| "join sep [x] = x"
| "join sep (x # y # ys) = x @ sep @ join sep (y # ys)"

text \<open>\<^verbatim>\<open>str.lower\<close> on the ASCII letters.\<close>

definition lower_char :: "char \<Rightarrow> char" where
  "lower_char c =
     (if (65::nat) \<le> of_char c \<and> of_char c \<le> (90::nat) then char_of (of_char c + (32::nat)) else c)"

definition lower :: "string \<Rightarrow> string" where
  "lower s = map lower_char s"

text \<open>The truth value of an optional string: \<^verbatim>\<open>None\<close> and the empty string are false.\<close>

definition truthy :: "string option \<Rightarrow> bool" where
  "truthy v = (case v of None \<Rightarrow> False | Some s \<Rightarrow> s \<noteq> [])"

text \<open>\<^verbatim>\<open>xs.insert(i, x)\<close> for \<open>0 \<le> i\<close>: an index past the end appends.\<close>

definition insert_at :: "'a list \<Rightarrow> nat \<Rightarrow> 'a \<Rightarrow> 'a list" where
  "insert_at xs i x = take i xs @ [x] @ drop i xs"

text \<open>The loop over the lines, on \<^verbatim>\<open>modified\<close> and the two flags.\<close>

fun modify_loop ::
  "string \<Rightarrow> string option \<Rightarrow> bool \<Rightarrow> string list \<Rightarrow> string list \<Rightarrow> bool \<Rightarrow> bool \<Rightarrow>
   string list \<times> bool \<times> bool" where
  "modify_loop new_maintainer new_author remove_repo [] modified maintainer_found author_found =
     (modified, maintainer_found, author_found)"
| "modify_loop new_maintainer new_author remove_repo (line # lines) modified maintainer_found author_found =
     (if startswith line ''Maintainer:'' then
        modify_loop new_maintainer new_author remove_repo lines
          (modified @ [''Maintainer: '' @ new_maintainer]) True author_found
      else if startswith line ''Author:'' \<and> truthy new_author then
        modify_loop new_maintainer new_author remove_repo lines
          (modified @ [''Author: '' @ the new_author]) maintainer_found True
      else if startswith line ''Homepage:'' \<and> remove_repo then
        modify_loop new_maintainer new_author remove_repo lines modified maintainer_found author_found
      else if startswith line ''Depiction:'' \<and> remove_repo then
        modify_loop new_maintainer new_author remove_repo lines modified maintainer_found author_found
      else if contains ''bkatm'' (lower line) \<and> remove_repo then
        modify_loop new_maintainer new_author remove_repo lines modified maintainer_found author_found
      else
        modify_loop new_maintainer new_author remove_repo lines
          (modified @ [line]) maintainer_found author_found)"

definition modify_maintainer :: "string \<Rightarrow> string \<Rightarrow> string option \<Rightarrow> bool \<Rightarrow> string" where
  "modify_maintainer text new_maintainer new_author remove_repo =
     (let lines = splitlines text in
      case modify_loop new_maintainer new_author remove_repo lines [] False False of
        (modified, maintainer_found, author_found) \<Rightarrow>
          let modified =
                (if \<not> maintainer_found
                 then insert_at modified 0 (''Maintainer: '' @ new_maintainer) else modified);
              modified =
                (if truthy new_author \<and> \<not> author_found
                 then insert_at modified (if maintainer_found then 1 else 0)
                        (''Author: '' @ the new_author)
                 else modified)
          in join [CHR 0x0A] modified @ [CHR 0x0A])"

text \<open>What the loop does to one line when only the maintainer is set.\<close>

definition set_maintainer :: "string \<Rightarrow> string \<Rightarrow> string" where
  "set_maintainer new_maintainer line =
     (if startswith line ''Maintainer:'' then ''Maintainer: '' @ new_maintainer else line)"

section \<open>Container codec (deb\_packer.py, validate\_deb.py, ios\_deb\_ip\_changer\_final.py)\<close>

text \<open>
  The text primitives the codec uses. \<^verbatim>\<open>decode('ascii')\<close> raises on a byte
  from 128 on, \<^verbatim>\<open>decode('ascii', 'ignore')\<close> drops it. \<^verbatim>\<open>str.strip()\<close>
  removes the white space of \<^verbatim>\<open>str.isspace\<close> at both ends.
\<close>

definition decode_ascii :: "bytes \<Rightarrow> error + string" where
  "decode_ascii b = (if is_ascii b then Inr b else Inl UnicodeDecodeError)"

definition decode_ascii_ignore :: "bytes \<Rightarrow> string" where
  "decode_ascii_ignore b = filter (\<lambda>c. of_char c < (128::nat)) b"

definition is_space :: "char \<Rightarrow> bool" where
  "is_space c =
     (of_char c \<in> set [9, 10, 11, 12, 13, 28, 29, 30, 31, 32, 133, 160 :: nat])"

definition strip :: "string \<Rightarrow> string" where
  "strip s = dropWhile is_space (rev (dropWhile is_space (rev s)))"

definition rstrip_chars :: "string \<Rightarrow> string \<Rightarrow> string" where
  "rstrip_chars s chars = rev (dropWhile (\<lambda>c. c \<in> set chars) (rev s))"

text \<open>\<^verbatim>\<open>s.ljust(width)\<close>, which is also \<^verbatim>\<open>f"{s:<width}"\<close>.\<close>

definition ljust :: "string \<Rightarrow> nat \<Rightarrow> string" where
  "ljust s width = s @ replicate (width - length s) CHR '' ''"

text \<open>\<^verbatim>\<open>str(n)\<close> of a natural number.\<close>

definition digit_char :: "nat \<Rightarrow> char" where
  "digit_char d = char_of (48 + d)"

function str_nat :: "nat \<Rightarrow> string" where
  "str_nat n = (if n < 10 then [digit_char n] else str_nat (n div 10) @ [digit_char (n mod 10)])"
  by pat_completeness auto
termination
  by (relation "measure id") auto

declare str_nat.simps [simp del]

text \<open>
  \<^verbatim>\<open>int(s)\<close> on ASCII text: white space around, an optional sign, then decimal
  digits, single underscores allowed between digits.
\<close>

definition is_digit :: "char \<Rightarrow> bool" where
  "is_digit c = ((48::nat) \<le> of_char c \<and> of_char c \<le> (57::nat))"

definition digit_value :: "char \<Rightarrow> nat" where
  "digit_value c = of_char c - 48"

fun parse_digits :: "nat \<Rightarrow> string \<Rightarrow> nat option" where
  "parse_digits acc [] = Some acc"
| "parse_digits acc (c # cs) =
     (if is_digit c then parse_digits (acc * 10 + digit_value c) cs
      else if c = CHR ''_'' then
        (case cs of
           [] \<Rightarrow> None
         | d # ds \<Rightarrow> if is_digit d then parse_digits (acc * 10 + digit_value d) ds else None)
      else None)"

definition py_int :: "string \<Rightarrow> error + int" where
  "py_int s =
     (let t = strip s;
          (sign, body) =
            (case t of
               [] \<Rightarrow> (1, t)
             | c # cs \<Rightarrow>
                 if c = CHR ''+'' then (1, cs) else if c = CHR ''-'' then (- 1, cs) else (1, t))
      in case body of
           [] \<Rightarrow> Inl (InvalidLiteralForInt s)
         | d # ds \<Rightarrow>
             if is_digit d then
               (case parse_digits 0 body of
                  None \<Rightarrow> Inl (InvalidLiteralForInt s)
                | Some v \<Rightarrow> Inr (sign * int v))
             else Inl (InvalidLiteralForInt s))"

text \<open>
  \<^verbatim>\<open>f.read(n)\<close> on the bytes that remain in the file: what is read and what
  remains. A negative \<open>n\<close> reads everything.
\<close>

definition read :: "bytes \<Rightarrow> int \<Rightarrow> bytes \<times> bytes" where
  "read f n = (if n < 0 then (f, []) else (take (nat n) f, drop (nat n) f))"

text \<open>
  The writer of deb\_packer.py. \<open>add_ar_member\<close> takes the bytes written to the
  file so far and returns them extended by the member; \<open>add_ar_members\<close> writes a
  sequence of members one after the other, as \<^verbatim>\<open>write_deb\<close> does for its three.
\<close>

definition AR_MAGIC :: bytes where
  "AR_MAGIC = ''!<arch>\<newline>''"

definition add_ar_member :: "bytes \<Rightarrow> string \<Rightarrow> bytes \<Rightarrow> error + bytes" where
  "add_ar_member ar_file name content =
     (if length name > 16 then Inl (NameTooLong name)
      else
        case encode_ascii
               (ljust name 16 @ ljust ''0'' 12 @ ljust ''0'' 6 @ ljust ''0'' 6 @
                ljust ''100644'' 8 @ ljust (str_nat (length content)) 10 @ ''`\<newline>'') of
          Inl e \<Rightarrow> Inl e
        | Inr header \<Rightarrow>
            if length header \<noteq> 60 then Inl HeaderNot60
            else Inr (ar_file @ header @ content @
                      (if length content mod 2 = 1 then ''\<newline>'' else [])))"

fun add_ar_members :: "bytes \<Rightarrow> (string \<times> bytes) list \<Rightarrow> error + bytes" where
  "add_ar_members ar_file [] = Inr ar_file"
| "add_ar_members ar_file ((name, content) # ms) =
     (case add_ar_member ar_file name content of
        Inl e \<Rightarrow> Inl e
      | Inr ar_file' \<Rightarrow> add_ar_members ar_file' ms)"

definition write_container :: "(string \<times> bytes) list \<Rightarrow> error + bytes" where
  "write_container c = add_ar_members AR_MAGIC c"

definition write_deb :: "bytes \<Rightarrow> bytes \<Rightarrow> error + bytes" where
  "write_deb control_tgz data_lzma =
     (case add_ar_member AR_MAGIC ''debian-binary'' ''2.0\<newline>'' of Inl e \<Rightarrow> Inl e | Inr ar \<Rightarrow>
      case add_ar_member ar ''control.tar.gz'' control_tgz of Inl e \<Rightarrow> Inl e | Inr ar \<Rightarrow>
      add_ar_member ar ''data.tar.lzma'' data_lzma)"

text \<open>
  The reader of validate\_deb.py: \<open>read_members_loop\<close> is its
  \<^verbatim>\<open>while True\<close> loop on the bytes that remain and the members read so far. Every
  round that goes on consumes a header of 60 bytes, so the loop ends.
\<close>

function read_members_loop :: "bytes \<Rightarrow> (string \<times> bytes) list \<Rightarrow> error + (string \<times> bytes) list" where
  "read_members_loop f members =
     (let (hdr, f1) = read f 60 in
      if hdr = [] then Inr members
      else if length hdr < 60 then Inl TruncatedHeader
      else
        case decode_ascii (slice hdr 0 16) of Inl e \<Rightarrow> Inl e | Inr name_txt \<Rightarrow>
        let name = strip name_txt in
        case decode_ascii (slice hdr 48 58) of Inl e \<Rightarrow> Inl e | Inr size_txt \<Rightarrow>
        case py_int (if strip size_txt = [] then ''0'' else strip size_txt) of
          Inl e \<Rightarrow> Inl e
        | Inr size' \<Rightarrow>
            let (data, f2) = read f1 size';
                f3 = (if size' mod 2 = 1 then snd (read f2 1) else f2)
            in read_members_loop f3 (members @ [(name, data)]))"
  by pat_completeness auto
termination
  apply (relation "measure (\<lambda>(f, members). length f)")
   apply (auto simp: read_def split: if_splits)
  done

declare read_members_loop.simps [simp del]

definition read_members :: "bytes \<Rightarrow> error + (string \<times> bytes) list" where
  "read_members file =
     (let (magic, f) = read file 8 in
      if magic \<noteq> AR_MAGIC then Inl MissingGlobalHeader
      else read_members_loop f [])"

text \<open>The reader of ios\_deb\_ip\_changer\_final.py, \<^verbatim>\<open>_read_ar_members\<close>.\<close>

function read_ar_members_loop :: "bytes \<Rightarrow> (string \<times> bytes) list \<Rightarrow> error + (string \<times> bytes) list" where
  "read_ar_members_loop fp members =
     (let (hdr, fp1) = read fp 60 in
      if hdr = [] then Inr members
      else if length hdr < 60 then Inl TruncatedHeader
      else
        let name = rstrip_chars (strip (decode_ascii_ignore (slice hdr 0 16))) ''/'';
            size_txt =
              (if strip (decode_ascii_ignore (slice hdr 48 58)) = [] then ''0''
               else strip (decode_ascii_ignore (slice hdr 48 58)))
        in case py_int size_txt of
             Inl e \<Rightarrow> Inl e
           | Inr size' \<Rightarrow>
               let (data, fp2) = read fp1 size';
                   fp3 = (if size' mod 2 = 1 then snd (read fp2 1) else fp2)
               in read_ar_members_loop fp3 (members @ [(name, data)]))"
  by pat_completeness auto
termination
  apply (relation "measure (\<lambda>(fp, members). length fp)")
   apply (auto simp: read_def split: if_splits)
  done

declare read_ar_members_loop.simps [simp del]

definition read_ar_members :: "bytes \<Rightarrow> error + (string \<times> bytes) list" where
  "read_ar_members file =
     (let (magic, fp) = read file 8 in
      if magic \<noteq> ''!<arch>\<newline>'' then Inl MissingGlobalHeader
      else read_ar_members_loop fp [])"

text \<open>
  For the statements below: the header that \<open>add_ar_member\<close> builds, the bytes it
  appends for a member, and the members that survive a round trip (a name of at most
  16 ASCII characters with no white space at either end, which the padding could not
  be told from, and a size that fits the ten digits of its field).
\<close>

definition ar_header :: "string \<Rightarrow> nat \<Rightarrow> string" where
  "ar_header name n =
     ljust name 16 @ ljust ''0'' 12 @ ljust ''0'' 6 @ ljust ''0'' 6 @
     ljust ''100644'' 8 @ ljust (str_nat n) 10 @ ''`\<newline>''"

definition member_bytes :: "string \<times> bytes \<Rightarrow> bytes" where
  "member_bytes m =
     ar_header (fst m) (length (snd m)) @ snd m @
     (if length (snd m) mod 2 = 1 then ''\<newline>'' else [])"

definition member_ok :: "string \<times> bytes \<Rightarrow> bool" where
  "member_ok m \<longleftrightarrow>
     length (fst m) \<le> 16 \<and> is_ascii (fst m) \<and> strip (fst m) = fst m \<and>
     length (snd m) < 10 ^ 10"

section \<open>Package assembler (ios\_deb\_ip\_changer\_final.py)\<close>

text \<open>
  \<^verbatim>\<open>_assemble_deb\<close> and its local function \<^verbatim>\<open>add\<close>, which formats
  the header fields with f-strings and, unlike \<open>add_ar_member\<close>, cuts the name at 16
  characters and does not check the header's length. The compressor
  \<^verbatim>\<open>lzma.compress(\<dots>, format=lzma.FORMAT_ALONE, preset=6)\<close> belongs to Python's
  library: it is the parameter \<open>compress\<close>. The result is the content of the output
  file.
\<close>

definition assemble_add :: "bytes \<Rightarrow> string \<Rightarrow> bytes \<Rightarrow> error + bytes" where
  "assemble_add out name content =
     (case encode_ascii
             (take 16 (ljust name 16) @ ljust (str_nat 0) 12 @ ljust (str_nat 0) 6 @
              ljust (str_nat 0) 6 @ ljust (str_nat 100644) 8 @
              ljust (str_nat (length content)) 10 @ ''`\<newline>'') of
        Inl e \<Rightarrow> Inl e
      | Inr header \<Rightarrow>
          Inr (out @ header @ content @
               (if length content mod 2 = 1 then ''\<newline>'' else [])))"

definition assemble_deb ::
  "(bytes \<Rightarrow> bytes) \<Rightarrow> bytes \<Rightarrow> bytes \<Rightarrow> bytes \<Rightarrow> bool \<Rightarrow> error + bytes" where
  "assemble_deb compress debbin control_gz data_tar_bytes lzma_alone =
     (let (compressed_data, data_name) =
            (if lzma_alone then (compress data_tar_bytes, ''data.tar.lzma'')
             else (data_tar_bytes, ''data.tar''));
          out = ''!<arch>\<newline>''
      in case assemble_add out ''debian-binary'' (if debbin \<noteq> [] then debbin else ''2.0\<newline>'') of
           Inl e \<Rightarrow> Inl e
         | Inr out \<Rightarrow>
             case assemble_add out ''control.tar.gz'' control_gz of
               Inl e \<Rightarrow> Inl e
             | Inr out \<Rightarrow> assemble_add out data_name compressed_data)"

text \<open>The three members of a package, in the canonical order.\<close>

definition package_members :: "bytes \<Rightarrow> bytes \<Rightarrow> bytes \<Rightarrow> (string \<times> bytes) list" where
  "package_members stamp control payload =
     [(''debian-binary'', stamp), (''control.tar.gz'', control), (''data.tar.lzma'', payload)]"

section \<open>File-archive builders\<close>

text \<open>
  The directory tree a builder walks: a file has a name, what \<^verbatim>\<open>stat\<close> says of
  it (with the user and group names that \<^verbatim>\<open>tarfile\<close> looks up for its ids) and
  a content; a directory has a name, its \<^verbatim>\<open>stat\<close> and its entries in the order
  in which the operating system lists them. There are no symbolic links.
\<close>

record stat =
  st_mode :: nat
  st_uid :: nat
  st_gid :: nat
  st_mtime :: nat
  pw_name :: string
  gr_name :: string

datatype node = File string stat bytes | Dir string stat "node list"

text \<open>
  A tar archive is modelled as the sequence of its entries, each the
  \<^verbatim>\<open>TarInfo\<close> written and the content copied after it; turning the entries into
  bytes is \<^verbatim>\<open>tarfile\<close>'s. \<open>TarInfo\<close> is the constructor with its defaults,
  \<open>gettarinfo\<close> fills the fields from the file's \<^verbatim>\<open>stat\<close>.
\<close>

datatype tar_type = REGTYPE | DIRTYPE

record tarinfo =
  ti_name :: string
  ti_type :: tar_type
  ti_mode :: nat
  ti_uid :: nat
  ti_gid :: nat
  ti_uname :: string
  ti_gname :: string
  ti_mtime :: nat
  ti_size :: nat

definition mode_644 :: nat where
  "mode_644 = 6 * 64 + 4 * 8 + 4"

definition mode_755 :: nat where
  "mode_755 = 7 * 64 + 5 * 8 + 5"

type_synonym archive = "(tarinfo \<times> bytes) list"

definition TarInfo :: "string \<Rightarrow> tarinfo" where
  "TarInfo arcname =
     \<lparr>ti_name = arcname, ti_type = REGTYPE, ti_mode = mode_644, ti_uid = 0, ti_gid = 0,
      ti_uname = [], ti_gname = [], ti_mtime = 0, ti_size = 0\<rparr>"

definition gettarinfo :: "stat \<Rightarrow> bytes \<Rightarrow> string \<Rightarrow> tarinfo" where
  "gettarinfo st content arcname =
     \<lparr>ti_name = arcname, ti_type = REGTYPE, ti_mode = st_mode st, ti_uid = st_uid st,
      ti_gid = st_gid st, ti_uname = pw_name st, ti_gname = gr_name st,
      ti_mtime = st_mtime st, ti_size = length content\<rparr>"

definition gettarinfo_dir :: "stat \<Rightarrow> string \<Rightarrow> tarinfo" where
  "gettarinfo_dir st arcname =
     \<lparr>ti_name = arcname, ti_type = DIRTYPE, ti_mode = st_mode st, ti_uid = st_uid st,
      ti_gid = st_gid st, ti_uname = pw_name st, ti_gname = gr_name st,
      ti_mtime = st_mtime st, ti_size = 0\<rparr>"

text \<open>
  \<^verbatim>\<open>os.walk(top)\<close>, top down: for each directory its path below \<open>top\<close>, its
  subdirectories and its files, then the same for each subdirectory in turn.
\<close>

fun dirs_of :: "node list \<Rightarrow> (string \<times> stat) list" where
  "dirs_of [] = []"
| "dirs_of (Dir name st children # es) = (name, st) # dirs_of es"
| "dirs_of (File name st content # es) = dirs_of es"

fun files_of :: "node list \<Rightarrow> (string \<times> stat \<times> bytes) list" where
  "files_of [] = []"
| "files_of (Dir name st children # es) = files_of es"
| "files_of (File name st content # es) = (name, st, content) # files_of es"

fun walk ::
    "string list \<Rightarrow> node list \<Rightarrow>
     (string list \<times> (string \<times> stat) list \<times> (string \<times> stat \<times> bytes) list) list"
  and walk_subdirs ::
    "string list \<Rightarrow> node list \<Rightarrow>
     (string list \<times> (string \<times> stat) list \<times> (string \<times> stat \<times> bytes) list) list" where
  "walk root entries = (root, dirs_of entries, files_of entries) # walk_subdirs root entries"
| "walk_subdirs root [] = []"
| "walk_subdirs root (File name st content # es) = walk_subdirs root es"
| "walk_subdirs root (Dir name st children # es) =
     walk (root @ [name]) children @ walk_subdirs root es"

declare walk.simps(1) [simp del]

text \<open>
  \<^verbatim>\<open>os.path.relpath(os.path.join(root, name), top)\<close> with every backslash
  replaced by a slash: the components below \<open>top\<close>, joined by slashes.
\<close>

definition relpath :: "string list \<Rightarrow> string \<Rightarrow> string" where
  "relpath root name = replace [CHR 0x5C] ''/'' (join ''/'' (root @ [name]))"

text \<open>
  \<^verbatim>\<open>_build_data_tar_from_dir\<close> of ios\_deb\_ip\_changer\_final.py. The class defines
  the method twice; the second definition replaces the first, so it is the one that
  runs. \<open>data_dir_name\<close> is the last component of the path of the directory walked.
\<close>

definition mach_o_magics :: "bytes list" where
  "mach_o_magics =
     [[CHR 0xFE, CHR 0xED, CHR 0xFA, CHR 0xCE], [CHR 0xCE, CHR 0xFA, CHR 0xED, CHR 0xFE],
      [CHR 0xFE, CHR 0xED, CHR 0xFA, CHR 0xCF], [CHR 0xCF, CHR 0xFA, CHR 0xED, CHR 0xFE],
      [CHR 0xCA, CHR 0xFE, CHR 0xBA, CHR 0xBE], [CHR 0xBE, CHR 0xBA, CHR 0xFE, CHR 0xCA]]"

definition is_executable :: "string \<Rightarrow> string list \<Rightarrow> string \<Rightarrow> bytes \<Rightarrow> bool" where
  "is_executable data_dir_name root name content =
     (let arcname = relpath root name;
          by_name =
            (if endswith name ''.dylib'' \<or> endswith name ''.app'' then True
             else if contains ''/bin/'' arcname \<or> contains ''/sbin/'' arcname then True
             else if contains ''.app/'' arcname then
               (let parent_dir = (if root = [] then data_dir_name else last root)
                in endswith parent_dir ''.app'' \<and>
                   take (length parent_dir - 4) parent_dir = name)
             else False);
          magic = take 4 content
      in if magic \<in> set mach_o_magics then True else by_name)"

definition data_file_entry ::
  "string \<Rightarrow> string list \<Rightarrow> string \<times> stat \<times> bytes \<Rightarrow> tarinfo \<times> bytes" where
  "data_file_entry data_dir_name root f =
     (case f of (name, st, content) \<Rightarrow>
        (gettarinfo st content (relpath root name)
           \<lparr>ti_uid := 0, ti_gid := 0, ti_uname := ''root'', ti_gname := ''wheel'',
            ti_mode := (if is_executable data_dir_name root name content then mode_755 else mode_644)\<rparr>,
         content))"

definition data_dir_entry :: "string list \<Rightarrow> string \<times> stat \<Rightarrow> tarinfo \<times> bytes" where
  "data_dir_entry root d =
     (case d of (name, st) \<Rightarrow>
        (TarInfo (relpath root name)
           \<lparr>ti_type := DIRTYPE, ti_uid := 0, ti_gid := 0, ti_uname := ''root'',
            ti_gname := ''wheel'', ti_mode := mode_755\<rparr>,
         []))"

definition build_data_tar_from_dir :: "string \<Rightarrow> node list \<Rightarrow> archive" where
  "build_data_tar_from_dir data_dir_name data_dir =
     concat (map (\<lambda>(root, dirs, files).
                    map (data_file_entry data_dir_name root) files @
                    map (data_dir_entry root) dirs)
                 (walk [] data_dir))"

text \<open>The first definition of the method, which the second replaces.\<close>

definition shadowed_build_data_tar_from_dir :: "node list \<Rightarrow> archive" where
  "shadowed_build_data_tar_from_dir src_dir =
     concat (map (\<lambda>(root, dirs, files).
                    map (\<lambda>(d, st).
                           (TarInfo (relpath root d)
                              \<lparr>ti_type := DIRTYPE, ti_mode := mode_755, ti_mtime := 0\<rparr>, []))
                        dirs @
                    map (\<lambda>(f_name, st, content).
                           (gettarinfo st content (relpath root f_name) \<lparr>ti_mtime := 0\<rparr>,
                            content))
                        files)
                 (walk [] src_dir))"

text \<open>
  \<^verbatim>\<open>_build_control_tar_gz_from_dir\<close>: \<open>build_control_tar_from_dir\<close> is the tar it
  builds in memory; serialising it and \<^verbatim>\<open>gzip\<close> (called with
  \<^verbatim>\<open>mtime=0\<close>) are the library's and are parameters.
\<close>

definition control_file_entry :: "string list \<Rightarrow> string \<times> stat \<times> bytes \<Rightarrow> tarinfo \<times> bytes" where
  "control_file_entry root f =
     (case f of (name, st, content) \<Rightarrow>
        (gettarinfo st content (relpath root name)
           \<lparr>ti_uid := 0, ti_gid := 0, ti_uname := ''root'', ti_gname := ''wheel'',
            ti_mode :=
              (if name \<in> set [''postinst'', ''prerm'', ''postrm'', ''preinst'', ''config'']
               then mode_755 else mode_644)\<rparr>,
         content))"

definition build_control_tar_from_dir :: "node list \<Rightarrow> archive" where
  "build_control_tar_from_dir control_dir =
     concat (map (\<lambda>(root, dirs, files). map (control_file_entry root) files)
                 (walk [] control_dir))"

definition build_control_tar_gz_from_dir :: "(archive \<Rightarrow> bytes) \<Rightarrow> (bytes \<Rightarrow> bytes) \<Rightarrow> node list \<Rightarrow> bytes" where
  "build_control_tar_gz_from_dir tar_bytes gzip control_dir =
     gzip (tar_bytes (build_control_tar_from_dir control_dir))"

text \<open>
  The builders of deb\_packer.py and change\_maintainer.py list the tree with
  \<^verbatim>\<open>Path.rglob("*")\<close>: the entries of the directory, then the same below each
  subdirectory in turn (the order of \<^verbatim>\<open>pathlib\<close> up to Python 3.11), and add
  each path with \<^verbatim>\<open>tar.add\<close>, which takes every field from the filesystem.
\<close>

datatype kind = IsFile stat bytes | IsDir stat

definition child :: "string list \<Rightarrow> node \<Rightarrow> string list \<times> kind" where
  "child root e =
     (case e of Dir name st children \<Rightarrow> (root @ [name], IsDir st)
              | File name st content \<Rightarrow> (root @ [name], IsFile st content))"

fun rglob :: "string list \<Rightarrow> node list \<Rightarrow> (string list \<times> kind) list"
  and rglob_subdirs :: "string list \<Rightarrow> node list \<Rightarrow> (string list \<times> kind) list" where
  "rglob root entries = map (child root) entries @ rglob_subdirs root entries"
| "rglob_subdirs root [] = []"
| "rglob_subdirs root (File name st content # es) = rglob_subdirs root es"
| "rglob_subdirs root (Dir name st children # es) =
     rglob (root @ [name]) children @ rglob_subdirs root es"

declare rglob.simps(1) [simp del]

definition add_path :: "string list \<times> kind \<Rightarrow> tarinfo \<times> bytes" where
  "add_path p =
     (case p of
        (path, IsDir st) \<Rightarrow> (gettarinfo_dir st (join ''/'' path), [])
      | (path, IsFile st content) \<Rightarrow> (gettarinfo st content (join ''/'' path), content))"

definition is_dir :: "string list \<times> kind \<Rightarrow> bool" where
  "is_dir p = (case snd p of IsDir st \<Rightarrow> True | IsFile st content \<Rightarrow> False)"

definition is_file :: "string list \<times> kind \<Rightarrow> bool" where
  "is_file p = (case snd p of IsDir st \<Rightarrow> False | IsFile st content \<Rightarrow> True)"

text \<open>
  deb\_packer.py: \<^verbatim>\<open>build_data_tar\<close> and \<^verbatim>\<open>build_control_tar\<close> run the same
  two loops (directories, then files); the second also compresses with gzip.
\<close>

definition build_data_tar :: "node list \<Rightarrow> archive" where
  "build_data_tar data_dir =
     map add_path (filter is_dir (rglob [] data_dir)) @
     map add_path (filter is_file (rglob [] data_dir))"

definition build_control_tar :: "node list \<Rightarrow> archive" where
  "build_control_tar control_dir =
     map add_path (filter is_dir (rglob [] control_dir)) @
     map add_path (filter is_file (rglob [] control_dir))"

text \<open>change\_maintainer.py: \<^verbatim>\<open>build_data_tar\<close> has the loop over the files only.\<close>

definition cm_build_data_tar :: "node list \<Rightarrow> archive" where
  "cm_build_data_tar data_dir = map add_path (filter is_file (rglob [] data_dir))"

text \<open>For the statements below: the owner an entry carries, and a file's \<^verbatim>\<open>stat\<close> for the examples.\<close>

definition owner_is :: "string \<Rightarrow> string \<Rightarrow> tarinfo \<times> bytes \<Rightarrow> bool" where
  "owner_is uname gname e =
     (ti_uid (fst e) = 0 \<and> ti_gid (fst e) = 0 \<and> ti_uname (fst e) = uname \<and>
      ti_gname (fst e) = gname)"

definition example_stat :: stat where
  "example_stat =
     \<lparr>st_mode = mode_644, st_uid = 501, st_gid = 20, st_mtime = 7,
      pw_name = ''user'', gr_name = ''staff''\<rparr>"

section \<open>Legacy stream codec and its callers\<close>

text \<open>
  The magic sequence of the modern (xz) framing; validate\_deb.py compares with its
  first five bytes and with its first two.
\<close>

definition XZ_MAGIC :: bytes where
  "XZ_MAGIC = [CHR 0xFD, CHR ''7'', CHR ''z'', CHR ''X'', CHR ''Z'', CHR 0x00]"

text \<open>A number as four little-endian bytes.\<close>

definition le32 :: "nat \<Rightarrow> bytes" where
  "le32 n =
     [char_of (n mod 256), char_of (n div 256 mod 256), char_of (n div 65536 mod 256),
      char_of (n div 16777216 mod 256)]"

text \<open>
  Modelled from the spec: the stream that
  \<^verbatim>\<open>lzma.compress(data, format=lzma.FORMAT_ALONE, preset=preset)\<close> returns; the
  \<^verbatim>\<open>lzma\<close> module is Python's library and is not under src/. By the spec
  (4.3) the legacy framing is a self-contained header carrying the dictionary and
  filter parameters, followed directly by the compressed data: its first byte is
  always a properties byte in the range the filter permits, followed by the dictionary
  size as four little-endian bytes. The filter permits \<open>(pb \<cdot> 5 + lp) \<cdot> 9 + lc\<close> with
  \<open>lc \<le> 8\<close>, \<open>lp \<le> 4\<close> and \<open>pb \<le> 4\<close>, that is 0 to 224; \<open>props_byte\<close> is the type
  of the bytes in that range. The parameters that a preset selects (\<open>preset_params\<close>:
  properties byte and dictionary size) and the rest of the stream (\<open>body\<close>) are
  parameters.
\<close>

typedef props_byte = "{n::nat. n \<le> 224}"
  by (rule exI [of _ 0]) simp

definition lzma_compress_alone ::
  "(nat \<Rightarrow> props_byte \<times> nat) \<Rightarrow> (nat \<Rightarrow> bytes \<Rightarrow> bytes) \<Rightarrow> bytes \<Rightarrow> nat \<Rightarrow> bytes" where
  "lzma_compress_alone preset_params body data preset =
     (case preset_params preset of
        (props, dict_size) \<Rightarrow>
          char_of (Rep_props_byte props) # le32 dict_size @ body preset data)"

text \<open>
  \<^verbatim>\<open>compress_lzma_alone\<close> of deb\_packer.py: the bytes it writes to
  \<^verbatim>\<open>lzma_path\<close>.
\<close>

definition compress_lzma_alone ::
  "(nat \<Rightarrow> props_byte \<times> nat) \<Rightarrow> (nat \<Rightarrow> bytes \<Rightarrow> bytes) \<Rightarrow> bytes \<Rightarrow> nat \<Rightarrow> bytes" where
  "compress_lzma_alone preset_params body raw_tar preset =
     (let data = raw_tar;
          comp = lzma_compress_alone preset_params body data preset
      in comp)"

text \<open>
  A stream in the modern framing: the 60 bytes that \<^verbatim>\<open>lzma.compress(b't')\<close>
  returns (the library's default format is xz): the magic sequence, the stream flags
  and their CRC, one block holding the byte \<open>t\<close>, the index and the footer. On this
  stream \<^verbatim>\<open>lzma.decompress(\<dots>, format=lzma.FORMAT_ALONE)\<close> raises
  \<^verbatim>\<open>LZMAError\<close> and \<^verbatim>\<open>lzma.decompress(\<dots>)\<close> returns \<^verbatim>\<open>b't'\<close>.
\<close>

definition xz_stream_t :: bytes where
  "xz_stream_t =
     [CHR 0xFD, CHR 0x37, CHR 0x7A, CHR 0x58, CHR 0x5A, CHR 0x00, CHR 0x00, CHR 0x04,
      CHR 0xE6, CHR 0xD6, CHR 0xB4, CHR 0x46, CHR 0x02, CHR 0x00, CHR 0x21, CHR 0x01,
      CHR 0x16, CHR 0x00, CHR 0x00, CHR 0x00, CHR 0x74, CHR 0x2F, CHR 0xE5, CHR 0xA3,
      CHR 0x01, CHR 0x00, CHR 0x00, CHR 0x74, CHR 0x00, CHR 0x00, CHR 0x00, CHR 0x00,
      CHR 0x10, CHR 0x4C, CHR 0x7E, CHR 0x83, CHR 0x75, CHR 0xAA, CHR 0x67, CHR 0x86,
      CHR 0x00, CHR 0x01, CHR 0x19, CHR 0x01, CHR 0xA5, CHR 0x2C, CHR 0x81, CHR 0xCC,
      CHR 0x1F, CHR 0xB6, CHR 0xF3, CHR 0x7D, CHR 0x01, CHR 0x00, CHR 0x00, CHR 0x00,
      CHR 0x00, CHR 0x04, CHR 0x59, CHR 0x5A]"

text \<open>
  \<^verbatim>\<open>_parse_deb\<close> of ios\_deb\_ip\_changer\_final.py. The two decoders are the
  library's and are parameters: \<^verbatim>\<open>lzma.decompress(b, format=lzma.FORMAT_ALONE)\<close>
  and \<^verbatim>\<open>lzma.decompress(b)\<close>, which detects the framing; \<open>None\<close> stands for
  \<^verbatim>\<open>LZMAError\<close>. \<^verbatim>\<open>next(\<dots>, None)\<close> is \<^const>\<open>find\<close>.
\<close>

record ParsedDeb =
  debian_binary :: bytes
  control_tar_gz :: bytes
  data_member_name :: string
  data_payload_bytes :: bytes
  data_tar_raw :: bytes

definition parse_deb ::
  "(bytes \<Rightarrow> bytes option) \<Rightarrow> (bytes \<Rightarrow> bytes option) \<Rightarrow> bytes \<Rightarrow> error + ParsedDeb" where
  "parse_deb lzma_decompress_alone lzma_decompress_auto deb =
     (case read_ar_members deb of
        Inl e \<Rightarrow> Inl e
      | Inr members \<Rightarrow>
          let debbin = map_option snd (find (\<lambda>(n, d). n = ''debian-binary'') members);
              control = map_option snd (find (\<lambda>(n, d). n = ''control.tar.gz'') members);
              data = find (\<lambda>(n, d). startswith n ''data.tar'') members
          in case (debbin, control, data) of
               (Some debbin, Some control, Some (data_name, data_bytes)) \<Rightarrow>
                 if debbin = [] \<or> control = [] \<or> data_bytes = [] \<or> data_name = []
                 then Inl MissingRequiredMembers
                 else if endswith data_name ''.lzma'' then
                   (case lzma_decompress_alone data_bytes of
                      Some raw_tar \<Rightarrow>
                        Inr \<lparr>debian_binary = debbin, control_tar_gz = control,
                             data_member_name = data_name, data_payload_bytes = data_bytes,
                             data_tar_raw = raw_tar\<rparr>
                    | None \<Rightarrow>
                        (case lzma_decompress_auto data_bytes of
                           Some raw_tar \<Rightarrow>
                             Inr \<lparr>debian_binary = debbin, control_tar_gz = control,
                                  data_member_name = data_name, data_payload_bytes = data_bytes,
                                  data_tar_raw = raw_tar\<rparr>
                         | None \<Rightarrow> Inl LZMAError))
                 else if data_name = ''data.tar'' then
                   Inr \<lparr>debian_binary = debbin, control_tar_gz = control,
                        data_member_name = data_name, data_payload_bytes = data_bytes,
                        data_tar_raw = data_bytes\<rparr>
                 else Inl (UnsupportedDataMember data_name)
             | _ \<Rightarrow> Inl MissingRequiredMembers)"

text \<open>
  \<^verbatim>\<open>main\<close> of validate\_deb.py. \<open>validate_members\<close> is what it does with the
  members read: the verdict it prints last (a failure with its message, or PASS);
  \<open>validate_main\<close> is the exit code. \<open>getnames\<close> stands for opening the control
  archive with \<^verbatim>\<open>tarfile\<close> and listing its names, \<open>None\<close> when that raises.
  \<^verbatim>\<open>next(\<dots>)\<close> without a default raises when nothing is found.
\<close>

datatype verdict = PASS | FAIL string

definition next_data :: "string \<Rightarrow> (string \<times> bytes) list \<Rightarrow> error + bytes" where
  "next_data name members =
     (case find (\<lambda>(n, d). n = name) members of
        None \<Rightarrow> Inl StopIteration
      | Some (n, d) \<Rightarrow> Inr d)"

definition validate_members ::
  "(bytes \<Rightarrow> string list option) \<Rightarrow> (string \<times> bytes) list \<Rightarrow> error + verdict" where
  "validate_members getnames members =
     (let order = map fst members in
      if take 1 order \<noteq> [''debian-binary''] then Inr (FAIL ''debian-binary not first'')
      else if ''control.tar.gz'' \<notin> set order then Inr (FAIL ''missing control.tar.gz'')
      else
        case find (\<lambda>n. startswith n ''data.tar'') order of
          None \<Rightarrow> Inr (FAIL ''missing data.tar.*'')
        | Some data_name \<Rightarrow>
            if data_name = [] then Inr (FAIL ''missing data.tar.*'')
            else
              case next_data ''debian-binary'' members of Inl e \<Rightarrow> Inl e | Inr debbin \<Rightarrow>
              if debbin \<noteq> ''2.0\<newline>'' then Inr (FAIL ''wrong debian-binary contents'')
              else
                case next_data data_name members of Inl e \<Rightarrow> Inl e | Inr data_bytes \<Rightarrow>
                let sig = slice data_bytes 0 6;
                    control_check =
                      (case next_data ''control.tar.gz'' members of Inl e \<Rightarrow> Inl e | Inr ctrl \<Rightarrow>
                       case getnames ctrl of
                         None \<Rightarrow> Inr (FAIL ''cannot read control.tar.gz'')
                       | Some names \<Rightarrow>
                           if ''control'' \<notin> set names
                           then Inr (FAIL ''control file missing inside control.tar.gz'')
                           else Inr PASS)
                in if startswith sig [CHR 0x5D, CHR 0x00, CHR 0x00] then control_check
                   else if startswith sig [CHR 0xFD, CHR ''7'', CHR ''z'', CHR ''X'', CHR ''Z''] \<or>
                           slice sig 0 2 = [CHR 0xFD, CHR ''7'']
                   then Inr (FAIL ''XZ container used'')
                   else control_check)"

definition validate_main :: "(bytes \<Rightarrow> string list option) \<Rightarrow> bytes \<Rightarrow> error + nat" where
  "validate_main getnames deb =
     (case read_members deb of
        Inl e \<Rightarrow> Inl e
      | Inr members \<Rightarrow>
          (case validate_members getnames members of
             Inl e \<Rightarrow> Inl e
           | Inr PASS \<Rightarrow> Inr 0
           | Inr (FAIL msg) \<Rightarrow> Inr 1))"

text \<open>
  For the statements on the order of the entries: a path lies below a directory when
  the directory's path is a proper prefix of it; and the directories of a tree, each
  with its path and its \<^verbatim>\<open>stat\<close>.
\<close>

definition below :: "string list \<Rightarrow> string list \<Rightarrow> bool" where
  "below d p \<longleftrightarrow> (\<exists>r. r \<noteq> [] \<and> p = d @ r)"

inductive has_dir :: "node list \<Rightarrow> string list \<Rightarrow> stat \<Rightarrow> bool" where
  here: "Dir name st cs \<in> set es \<Longrightarrow> has_dir es [name] st"
| deeper: "Dir name st cs \<in> set es \<Longrightarrow> has_dir cs q st' \<Longrightarrow> has_dir es (name # q) st'"

section \<open>Properties of the offset patcher\<close>

lemma apply_patch_applied_iff:
  "snd (apply_patch d (off, old, new, desc)) \<longleftrightarrow>
     off + length old \<le> length d \<and> slice d off (off + length old) = old"
  by (auto simp: apply_patch_def Let_def)

lemma apply_patch_skipped_same:
  "\<not> snd (apply_patch d p) \<Longrightarrow> fst (apply_patch d p) = d"
  by (cases p) (auto simp: apply_patch_def Let_def split: if_splits)

lemma slice_after_rewrite:
  assumes "off + length old \<le> length d" "length new = length old"
  shows "slice (take off d @ new @ drop (off + length old) d) off (off + length old) = new"
  using assms by (simp add: slice_def min_def)

text \<open>
  On a file that ends before the first offset of the table nothing is applied and the
  file is not written; and the table never changes the length of a file.
\<close>

lemma patch_loop_all_skipped:
  "list_all (\<lambda>p. fst p + length (fst (snd p)) > length data) ps \<Longrightarrow>
   patch_loop data n ps = (data, n)"
proof (induction ps)
  case Nil
  then show ?case by simp
next
  case (Cons p ps)
  obtain off old new desc where p: "p = (off, old, new, desc)" by (cases p)
  from Cons.prems have "off + length old > length data" by (simp add: p)
  then have "apply_patch data (off, old, new, desc) = (data, False)"
    by (simp add: apply_patch_def)
  with Cons show ?case by (simp add: p)
qed

lemma apply_latency_patches_short_file:
  assumes "length file < 0x3D680"
  shows "apply_latency_patches file = (file, False)"
proof -
  from assms have "list_all (\<lambda>p. fst p + length (fst (snd p)) > length file) patches"
    by (simp add: patches_def)
  then have "patch_loop file 0 patches = (file, 0)"
    by (rule patch_loop_all_skipped)
  then show ?thesis by (simp add: apply_latency_patches_def)
qed

lemma apply_patch_length:
  "length new = length old \<Longrightarrow> length (fst (apply_patch d (off, old, new, desc))) = length d"
  by (simp add: apply_patch_def Let_def)

lemma patch_loop_length:
  "list_all (\<lambda>p. length (fst (snd (snd p))) = length (fst (snd p))) ps \<Longrightarrow>
   length (fst (patch_loop data n ps)) = length data"
proof (induction ps arbitrary: data n)
  case Nil
  then show ?case by simp
next
  case (Cons p ps)
  obtain off old new desc where p: "p = (off, old, new, desc)" by (cases p)
  from Cons.prems have len: "length new = length old" and rest:
    "list_all (\<lambda>p. length (fst (snd (snd p))) = length (fst (snd p))) ps"
    by (simp_all add: p)
  obtain d' a where step: "apply_patch data (off, old, new, desc) = (d', a)"
    by (cases "apply_patch data (off, old, new, desc)")
  with apply_patch_length [OF len, of data off desc] have "length d' = length data" by simp
  with Cons.IH [OF rest] step show ?case
    by (cases a) (simp_all add: p)
qed

lemma apply_latency_patches_length:
  "length (fst (apply_latency_patches file)) = length file"
proof -
  have "list_all (\<lambda>p. length (fst (snd (snd p))) = length (fst (snd p))) patches"
    by (simp add: patches_def)
  then have "length (fst (patch_loop file 0 patches)) = length file"
    by (rule patch_loop_length)
  then show ?thesis
    by (cases "patch_loop file 0 patches") (simp add: apply_latency_patches_def)
qed

lemma apply_patch_outside:
  assumes "length new = length old"
  shows "take off (fst (apply_patch d (off, old, new, desc))) = take off d \<and>
         drop (off + length old) (fst (apply_patch d (off, old, new, desc))) =
           drop (off + length old) d"
  using assms by (simp add: apply_patch_def Let_def)

text \<open>
  C10. A patch whose \<open>offset + len(old)\<close> exceeds the length of the data is skipped:
  the data is returned as it was and nothing is counted as applied. No error is
  possible (\<open>apply_patch\<close> is total and has no failing branch). A patch that is
  applied lies within the data, and what it writes is the replacement in the place of
  the expected bytes; a patch that is skipped writes nothing. A replacement as long as
  the expected bytes, which every entry of the table is (four bytes each), keeps the
  length of the data and every byte before the offset and from the end of the expected
  bytes on, so nothing is written past the end. \<^verbatim>\<open>apply_latency_patches\<close> as a
  whole keeps the length of the file, and leaves a file that ends before the first
  offset of the table as it was.
\<close>

theorem offset_patch_bounds_safety:
  "(off + length old > length d \<longrightarrow> apply_patch d (off, old, new, desc) = (d, False)) \<and>
   (snd (apply_patch d (off, old, new, desc)) \<longrightarrow>
      off + length old \<le> length d \<and>
      fst (apply_patch d (off, old, new, desc)) = take off d @ new @ drop (off + length old) d) \<and>
   (\<not> snd (apply_patch d (off, old, new, desc)) \<longrightarrow>
      fst (apply_patch d (off, old, new, desc)) = d) \<and>
   (length new = length old \<longrightarrow>
      length (fst (apply_patch d (off, old, new, desc))) = length d \<and>
      take off (fst (apply_patch d (off, old, new, desc))) = take off d \<and>
      drop (off + length old) (fst (apply_patch d (off, old, new, desc))) =
        drop (off + length old) d) \<and>
   list_all (\<lambda>p. length (fst (snd p)) = 4 \<and> length (fst (snd (snd p))) = 4) patches \<and>
   length (fst (apply_latency_patches bin)) = length bin \<and>
   (length bin < 0x3D680 \<longrightarrow> apply_latency_patches bin = (bin, False))"
proof (intro conjI impI)
  assume "off + length old > length d"
  then show "apply_patch d (off, old, new, desc) = (d, False)"
    by (simp add: apply_patch_def)
next
  assume "snd (apply_patch d (off, old, new, desc))"
  then show "off + length old \<le> length d"
    by (simp add: apply_patch_applied_iff)
next
  assume "snd (apply_patch d (off, old, new, desc))"
  then show "fst (apply_patch d (off, old, new, desc)) =
      take off d @ new @ drop (off + length old) d"
    by (simp add: apply_patch_def Let_def split: if_splits)
next
  assume "\<not> snd (apply_patch d (off, old, new, desc))"
  then show "fst (apply_patch d (off, old, new, desc)) = d"
    by (rule apply_patch_skipped_same)
next
  assume "length new = length old"
  then show "length (fst (apply_patch d (off, old, new, desc))) = length d"
    by (rule apply_patch_length)
next
  assume "length new = length old"
  then show "take off (fst (apply_patch d (off, old, new, desc))) = take off d"
    by (simp add: apply_patch_outside)
next
  assume "length new = length old"
  then show "drop (off + length old) (fst (apply_patch d (off, old, new, desc))) =
      drop (off + length old) d"
    by (simp add: apply_patch_outside)
next
  show "list_all (\<lambda>p. length (fst (snd p)) = 4 \<and> length (fst (snd (snd p))) = 4) patches"
    by (simp add: patches_def)
next
  show "length (fst (apply_latency_patches bin)) = length bin"
    by (rule apply_latency_patches_length)
next
  assume "length bin < 0x3D680"
  then show "apply_latency_patches bin = (bin, False)"
    by (rule apply_latency_patches_short_file)
qed

theorem offset_patch_bounds_safety_witness:
  "3 + length ''ab'' > length ''wxyz'' \<and>
   apply_patch ''wxyz'' (3, ''ab'', ''cd'', ''d'') = (''wxyz'', False) \<and>
   apply_patch ''wxyz'' (2, ''yz'', ''cd'', ''d'') = (''wxcd'', True) \<and>
   2 + length ''yz'' \<le> length ''wxyz'' \<and> length ''cd'' = length ''yz'' \<and>
   length ''wxcd'' = length ''wxyz'' \<and> take 2 ''wxcd'' = take 2 ''wxyz'' \<and>
   apply_patch ''wxyz'' (1, ''ab'', ''cd'', ''d'') = (''wxyz'', False) \<and>
   length ''wxyz'' < 0x3D680 \<and> apply_latency_patches ''wxyz'' = (''wxyz'', False)"
proof -
  have a: "apply_patch ''wxyz'' (2, ''yz'', ''cd'', ''d'') = (''wxcd'', True)"
    by (simp add: apply_patch_def slice_def)
  have s: "apply_patch ''wxyz'' (1, ''ab'', ''cd'', ''d'') = (''wxyz'', False)"
    by (simp add: apply_patch_def slice_def)
  have short: "length ''wxyz'' < 0x3D680" by simp
  from a s short
    offset_patch_bounds_safety [where off = 3 and old = "''ab''" and d = "''wxyz''"
      and new = "''cd''" and desc = "''d''" and bin = "''wxyz''"]
    offset_patch_bounds_safety [where off = 2 and old = "''yz''" and d = "''wxyz''"
      and new = "''cd''" and desc = "''d''" and bin = "''wxyz''"]
    offset_patch_bounds_safety [where off = 1 and old = "''ab''" and d = "''wxyz''"
      and new = "''cd''" and desc = "''d''" and bin = "''wxyz''"]
  show ?thesis by simp
qed

text \<open>
  C4, as stated: on every byte sequence the first of two successive applications is
  applied and the second skipped. It fails where the expected bytes are not at the
  offset: the first call is already skipped.
\<close>

theorem offset_patch_twice_counterexample:
  "apply_patch ''wxyz'' (1, ''ab'', ''cd'', ''d'') = (''wxyz'', False)"
  by (simp add: apply_patch_def slice_def)

text \<open>
  C4, amended: for a patch that replaces as many bytes as it expects and whose
  replacement differs from the expected bytes (every entry of the table is so), the
  first call is applied exactly when the expected bytes are at the offset, within the
  data; in either case the second call is skipped and leaves the content as the
  first call made it.
\<close>

theorem offset_patch_twice:
  assumes "length new = length old" "new \<noteq> old"
    and "apply_patch d (off, old, new, desc) = (d1, applied)"
  shows "apply_patch d1 (off, old, new, desc) = (d1, False) \<and>
         (applied \<longleftrightarrow> off + length old \<le> length d \<and> slice d off (off + length old) = old)"
proof
  show "apply_patch d1 (off, old, new, desc) = (d1, False)"
  proof (cases applied)
    case True
    with assms(3) have fits: "off + length old \<le> length d"
      and d1: "d1 = take off d @ new @ drop (off + length old) d"
      by (auto simp: apply_patch_def Let_def split: if_splits)
    have "slice d1 off (off + length old) = new"
      unfolding d1 using fits assms(1) by (rule slice_after_rewrite)
    with assms(2) show ?thesis
      by (simp add: apply_patch_def Let_def)
  next
    case False
    with assms(3) have "\<not> snd (apply_patch d (off, old, new, desc))" by simp
    then have "fst (apply_patch d (off, old, new, desc)) = d"
      by (rule apply_patch_skipped_same)
    with assms(3) have "d1 = d" by simp
    with assms(3) False show ?thesis by simp
  qed
next
  from assms(3) have "applied = snd (apply_patch d (off, old, new, desc))" by simp
  then show "applied \<longleftrightarrow> off + length old \<le> length d \<and> slice d off (off + length old) = old"
    by (simp only: apply_patch_applied_iff)
qed

theorem offset_patch_twice_witness:
  "apply_patch ''wxyz'' (1, ''xy'', ''ab'', ''d'') = (''wabz'', True) \<and>
   apply_patch ''wabz'' (1, ''xy'', ''ab'', ''d'') = (''wabz'', False)"
proof -
  have first: "apply_patch ''wxyz'' (1, ''xy'', ''ab'', ''d'') = (''wabz'', True)"
    by (simp add: apply_patch_def slice_def)
  have "length ''ab'' = length ''xy''" "''ab'' \<noteq> ''xy''" by simp_all
  from offset_patch_twice [OF this first] first show ?thesis by simp
qed

section \<open>Properties of the literal patcher\<close>


















section \<open>Properties of the metadata patcher\<close>

lemma modify_loop_plain:
  "modify_loop nm None False lines modified mf af =
     (modified @ map (set_maintainer nm) lines,
      mf \<or> list_ex (\<lambda>l. startswith l ''Maintainer:'') lines, af)"
  by (induction lines arbitrary: modified mf) (simp_all add: truthy_def set_maintainer_def)

text \<open>
  C6, as stated: only the first line that starts with the field name is rewritten and
  later lines of the same field are kept. The loop has no notion of a first match: it
  rewrites every line that starts with \<^verbatim>\<open>Maintainer:\<close>.
\<close>

theorem set_field_first_match_counterexample:
  "modify_maintainer ''Maintainer: a\<newline>Maintainer: b\<newline>'' ''kox'' None False =
     ''Maintainer: kox\<newline>Maintainer: kox\<newline>''"
  by (simp add: modify_maintainer_def splitlines_def is_linebreak_def startswith_def truthy_def)

text \<open>
  C6, amended: with no author given and nothing removed, every line that starts with
  \<^verbatim>\<open>Maintainer:\<close> is rewritten to the new maintainer and every other line
  is reproduced as it was, in order (when no line starts so, the new line is put
  first); the spec's example gives one maintainer line followed by the author line.
\<close>

theorem set_field_rewrites_every_match:
  "modify_maintainer text nm None False =
     join [CHR 0x0A]
       (if list_ex (\<lambda>l. startswith l ''Maintainer:'') (splitlines text)
        then map (set_maintainer nm) (splitlines text)
        else (''Maintainer: '' @ nm) # splitlines text) @ [CHR 0x0A] \<and>
   modify_maintainer ''Maintainer: Michael\<newline>Author: Someone\<newline>'' ''kox'' None False =
     ''Maintainer: kox\<newline>Author: Someone\<newline>''"
proof -
  have example:
    "modify_maintainer ''Maintainer: Michael\<newline>Author: Someone\<newline>'' ''kox'' None False =
       ''Maintainer: kox\<newline>Author: Someone\<newline>''"
    by (simp add: modify_maintainer_def splitlines_def is_linebreak_def startswith_def truthy_def)
  have "\<not> list_ex (\<lambda>l. startswith l ''Maintainer:'') ls \<Longrightarrow> map (set_maintainer nm) ls = ls" for ls
    by (induction ls) (simp_all add: set_maintainer_def)
  then have "modify_maintainer text nm None False =
     join [CHR 0x0A]
       (if list_ex (\<lambda>l. startswith l ''Maintainer:'') (splitlines text)
        then map (set_maintainer nm) (splitlines text)
        else (''Maintainer: '' @ nm) # splitlines text) @ [CHR 0x0A]"
    by (simp add: modify_maintainer_def modify_loop_plain truthy_def insert_at_def Let_def)
  with example show ?thesis by (rule conjI [rotated])
qed

section \<open>Properties of the container codec\<close>

lemma is_digit_digit_char: "d < 10 \<Longrightarrow> is_digit (digit_char d)"
  by (simp add: is_digit_def digit_char_def)

lemma digit_value_digit_char: "d < 10 \<Longrightarrow> digit_value (digit_char d) = d"
  by (simp add: digit_value_def digit_char_def)

lemma str_nat_digits: "list_all is_digit (str_nat n)"
proof (induction n rule: str_nat.induct)
  case (1 n)
  show ?case
  proof (cases "n < 10")
    case True
    then show ?thesis by (subst str_nat.simps) (simp add: is_digit_digit_char)
  next
    case False
    with 1 show ?thesis by (subst str_nat.simps) (simp add: is_digit_digit_char)
  qed
qed

lemma str_nat_nonempty: "str_nat n \<noteq> []"
  by (subst str_nat.simps) simp

lemma parse_digits_all_digits:
  "list_all is_digit cs \<Longrightarrow>
   parse_digits acc cs = Some (foldl (\<lambda>a c. a * 10 + digit_value c) acc cs)"
  by (induction cs arbitrary: acc) simp_all

lemma foldl_str_nat: "foldl (\<lambda>a c. a * 10 + digit_value c) 0 (str_nat n) = n"
proof (induction n rule: str_nat.induct)
  case (1 n)
  show ?case
  proof (cases "n < 10")
    case True
    then show ?thesis by (subst str_nat.simps) (simp add: digit_value_digit_char)
  next
    case False
    with 1 show ?thesis by (subst str_nat.simps) (simp add: digit_value_digit_char)
  qed
qed

lemma length_str_nat: "n < 10 ^ k \<Longrightarrow> 0 < k \<Longrightarrow> length (str_nat n) \<le> k"
proof (induction n arbitrary: k rule: str_nat.induct)
  case (1 n)
  show ?case
  proof (cases "n < 10")
    case True
    with 1(3) show ?thesis by (subst str_nat.simps) simp
  next
    case False
    with 1(2) have "1 < k" by (cases "k = 1") (use 1(3) in auto)
    then obtain j where k: "k = Suc j" and j: "0 < j" by (cases k) auto
    from 1(2) have "n div 10 < 10 ^ j" unfolding k by (simp add: less_mult_imp_div_less)
    from 1(1) [OF False this j] False show ?thesis
      unfolding k by (subst str_nat.simps) simp
  qed
qed


lemma is_digit_not_space: "is_digit c \<Longrightarrow> \<not> is_space c"
  by (auto simp: is_digit_def is_space_def)

lemma strip_id:
  assumes "s \<noteq> []" "\<not> is_space (hd s)" "\<not> is_space (last s)"
  shows "strip s = s"
proof -
  from assms(1,3) have "dropWhile is_space (rev s) = rev s"
    by (cases "rev s") (auto simp: last_rev [symmetric] simp del: last_rev)
  moreover from assms(1,2) have "dropWhile is_space s = s"
    by (cases s) auto
  ultimately show ?thesis by (simp add: strip_def)
qed

lemma dropWhile_replicate_append: "P x \<Longrightarrow> dropWhile P (replicate k x @ ys) = dropWhile P ys"
  by (induction k) simp_all

lemma strip_ljust: "strip (ljust s w) = strip s"
proof -
  have "is_space CHR '' ''" by (simp add: is_space_def)
  then show ?thesis
    by (simp add: strip_def ljust_def dropWhile_replicate_append)
qed

lemma strip_all_digits:
  assumes "list_all is_digit s" "s \<noteq> []"
  shows "strip s = s"
proof (rule strip_id)
  show "s \<noteq> []" by fact
  from assms show "\<not> is_space (hd s)"
    by (cases s) (auto dest: is_digit_not_space)
  from assms have "is_digit (last s)"
    by (simp add: list_all_iff)
  then show "\<not> is_space (last s)" by (rule is_digit_not_space)
qed

lemma py_int_digits:
  assumes "list_all is_digit s" "s \<noteq> []"
  shows "py_int s = Inr (int (foldl (\<lambda>a c. a * 10 + digit_value c) 0 s))"
proof -
  from assms obtain d ds where s: "s = d # ds" and d: "is_digit d"
    by (cases s) auto
  from d have "d \<noteq> CHR ''+''" "d \<noteq> CHR ''-''"
    by (auto simp: is_digit_def)
  then show ?thesis
    using d parse_digits_all_digits [OF assms(1), of 0]
    by (simp add: py_int_def strip_all_digits [OF assms] s [symmetric] Let_def)
      (simp add: s)
qed

lemma py_int_str_nat: "py_int (str_nat n) = Inr (int n)"
  by (simp add: py_int_digits str_nat_digits str_nat_nonempty foldl_str_nat)

lemma length_ljust: "length s \<le> w \<Longrightarrow> length (ljust s w) = w"
  by (simp add: ljust_def)

lemma is_ascii_append [simp]: "is_ascii (a @ b) \<longleftrightarrow> is_ascii a \<and> is_ascii b"
  by (simp add: is_ascii_def)

lemma is_ascii_ljust [simp]: "is_ascii (ljust s w) = is_ascii s"
  by (auto simp: ljust_def is_ascii_def list_all_iff)

lemma is_ascii_all_digits: "list_all is_digit s \<Longrightarrow> is_ascii s"
  by (auto simp: is_ascii_def is_digit_def list_all_iff)

lemma is_ascii_take: "is_ascii s \<Longrightarrow> is_ascii (take n s)"
  by (auto simp: is_ascii_def list_all_iff dest: in_set_takeD)

lemma length_ar_header:
  "length name \<le> 16 \<Longrightarrow> n < 10 ^ 10 \<Longrightarrow> length (ar_header name n) = 60"
  by (simp add: ar_header_def length_ljust length_str_nat)

lemma is_ascii_ar_header: "is_ascii name \<Longrightarrow> is_ascii (ar_header name n)"
  by (simp add: ar_header_def is_ascii_all_digits str_nat_digits) (simp add: is_ascii_def)

lemma slice_fields:
  "length a = 16 \<Longrightarrow> length b = 32 \<Longrightarrow> length c = 10 \<Longrightarrow>
   slice (a @ b @ c @ d) 0 16 = a \<and> slice (a @ b @ c @ d) 48 58 = c"
  by (simp add: slice_def)

lemma ar_header_fields:
  assumes "length name \<le> 16" "n < 10 ^ 10"
  shows "slice (ar_header name n) 0 16 = ljust name 16"
    and "slice (ar_header name n) 48 58 = ljust (str_nat n) 10"
proof -
  have "length (ljust name 16) = 16"
    using assms(1) by (rule length_ljust)
  moreover have "length (ljust ''0'' 12 @ ljust ''0'' 6 @ ljust ''0'' 6 @ ljust ''100644'' 8) = 32"
    by (simp add: ljust_def)
  moreover have "length (ljust (str_nat n) 10) = 10"
    using assms(2) by (simp add: length_ljust length_str_nat)
  ultimately have
    "slice (ljust name 16 @ (ljust ''0'' 12 @ ljust ''0'' 6 @ ljust ''0'' 6 @ ljust ''100644'' 8) @
            ljust (str_nat n) 10 @ ''`\<newline>'') 0 16 = ljust name 16 \<and>
     slice (ljust name 16 @ (ljust ''0'' 12 @ ljust ''0'' 6 @ ljust ''0'' 6 @ ljust ''100644'' 8) @
            ljust (str_nat n) 10 @ ''`\<newline>'') 48 58 = ljust (str_nat n) 10"
    by (rule slice_fields)
  then show "slice (ar_header name n) 0 16 = ljust name 16"
    and "slice (ar_header name n) 48 58 = ljust (str_nat n) 10"
    by (simp_all add: ar_header_def)
qed

lemma add_ar_member_ok:
  assumes "length name \<le> 16" "is_ascii name" "length content < 10 ^ 10"
  shows "add_ar_member ar_file name content = Inr (ar_file @ member_bytes (name, content))"
  using assms length_ar_header [OF assms(1,3)] is_ascii_ar_header [OF assms(2), of "length content"]
  by (simp add: add_ar_member_def encode_ascii_def member_bytes_def ar_header_def)

lemma add_ar_members_ok:
  "list_all member_ok c \<Longrightarrow>
   add_ar_members ar_file c = Inr (ar_file @ concat (map member_bytes c))"
proof (induction c arbitrary: ar_file)
  case Nil
  then show ?case by simp
next
  case (Cons m c)
  obtain name content where m: "m = (name, content)" by (cases m)
  from Cons.prems have "length name \<le> 16" "is_ascii name" "length content < 10 ^ 10"
    by (simp_all add: m member_ok_def)
  then have "add_ar_member ar_file name content = Inr (ar_file @ member_bytes (name, content))"
    by (rule add_ar_member_ok)
  moreover from Cons.prems have "list_all member_ok c" by simp
  ultimately show ?case
    by (simp add: m Cons.IH)
qed

lemma strip_str_nat: "strip (str_nat n) = str_nat n"
  by (simp add: strip_all_digits str_nat_digits str_nat_nonempty)

lemma read_member_data:
  "read (content @ pad @ rest) (int (length content)) = (content, pad @ rest)"
  by (simp add: read_def)

lemma read_members_loop_member:
  assumes "member_ok (name, content)"
  shows "read_members_loop (member_bytes (name, content) @ rest) members =
         read_members_loop rest (members @ [(name, content)])"
proof -
  define n where "n = length content"
  define h where "h = ar_header name n"
  define pad where "pad = (if n mod 2 = 1 then ''\<newline>'' else [])"
  from assms have name: "length name \<le> 16" "is_ascii name" "strip name = name"
    and n: "n < 10 ^ 10"
    by (simp_all add: member_ok_def n_def)
  have len: "length h = 60" unfolding h_def using name(1) n by (rule length_ar_header)
  have bytes: "member_bytes (name, content) @ rest = h @ content @ pad @ rest"
    by (simp add: member_bytes_def h_def n_def pad_def)
  have rd: "read (h @ content @ pad @ rest) 60 = (h, content @ pad @ rest)"
    using len by (simp add: read_def)
  have f1: "slice h 0 16 = ljust name 16" and f2: "slice h 48 58 = ljust (str_nat n) 10"
    unfolding h_def using name(1) n by (rule ar_header_fields)+
  have d1: "decode_ascii (ljust name 16) = Inr (ljust name 16)"
    using name(2) by (simp add: decode_ascii_def)
  have d2: "decode_ascii (ljust (str_nat n) 10) = Inr (ljust (str_nat n) 10)"
    by (simp add: decode_ascii_def is_ascii_all_digits str_nat_digits)
  have hne: "h \<noteq> []" using len by auto
  have par: "(int n mod 2 = 1) = (n mod 2 = 1)" by presburger
  have skip: "(if int n mod 2 = 1 then snd (read (pad @ rest) 1) else pad @ rest) = rest"
    by (simp add: par read_def pad_def)
  have data: "read (content @ pad @ rest) (int n) = (content, pad @ rest)"
    unfolding n_def by (rule read_member_data)
  show ?thesis
    unfolding bytes
    by (subst read_members_loop.simps)
      (simp add: rd hne len f1 f2 d1 d2 strip_ljust name(3) strip_str_nat str_nat_nonempty
        py_int_str_nat data skip del: append_assoc)
qed

lemma read_members_loop_Nil: "read_members_loop [] members = Inr members"
  by (subst read_members_loop.simps) (simp add: read_def)

lemma read_members_loop_written:
  "list_all member_ok c \<Longrightarrow>
   read_members_loop (concat (map member_bytes c)) members = Inr (members @ c)"
proof (induction c arbitrary: members)
  case Nil
  then show ?case by (simp add: read_members_loop_Nil)
next
  case (Cons m c)
  obtain name content where m: "m = (name, content)" by (cases m)
  from Cons.prems have ok: "member_ok (name, content)" and rest: "list_all member_ok c"
    by (simp_all add: m)
  show ?case
    using read_members_loop_member [OF ok, of "concat (map member_bytes c)" members]
      Cons.IH [OF rest, of "members @ [(name, content)]"]
    by (simp add: m)
qed

lemma decode_ascii_ignore_ascii: "is_ascii s \<Longrightarrow> decode_ascii_ignore s = s"
  by (simp add: decode_ascii_ignore_def is_ascii_def list_all_iff)

lemma read_ar_members_loop_member:
  assumes "member_ok (name, content)" "rstrip_chars name ''/'' = name"
  shows "read_ar_members_loop (member_bytes (name, content) @ rest) members =
         read_ar_members_loop rest (members @ [(name, content)])"
proof -
  define n where "n = length content"
  define h where "h = ar_header name n"
  define pad where "pad = (if n mod 2 = 1 then ''\<newline>'' else [])"
  from assms(1) have name: "length name \<le> 16" "is_ascii name" "strip name = name"
    and n: "n < 10 ^ 10"
    by (simp_all add: member_ok_def n_def)
  have len: "length h = 60" unfolding h_def using name(1) n by (rule length_ar_header)
  have bytes: "member_bytes (name, content) @ rest = h @ content @ pad @ rest"
    by (simp add: member_bytes_def h_def n_def pad_def)
  have rd: "read (h @ content @ pad @ rest) 60 = (h, content @ pad @ rest)"
    using len by (simp add: read_def)
  have f1: "slice h 0 16 = ljust name 16" and f2: "slice h 48 58 = ljust (str_nat n) 10"
    unfolding h_def using name(1) n by (rule ar_header_fields)+
  have d1: "decode_ascii_ignore (ljust name 16) = ljust name 16"
    using name(2) by (simp add: decode_ascii_ignore_ascii)
  have d2: "decode_ascii_ignore (ljust (str_nat n) 10) = ljust (str_nat n) 10"
    by (simp add: decode_ascii_ignore_ascii is_ascii_all_digits str_nat_digits)
  have hne: "h \<noteq> []" using len by auto
  have par: "(int n mod 2 = 1) = (n mod 2 = 1)" by presburger
  have skip: "(if int n mod 2 = 1 then snd (read (pad @ rest) 1) else pad @ rest) = rest"
    by (simp add: par read_def pad_def)
  have data: "read (content @ pad @ rest) (int n) = (content, pad @ rest)"
    unfolding n_def by (rule read_member_data)
  show ?thesis
    unfolding bytes
    by (subst read_ar_members_loop.simps)
      (simp add: rd hne len f1 f2 d1 d2 strip_ljust name(3) assms(2) strip_str_nat
        str_nat_nonempty py_int_str_nat data skip del: append_assoc)
qed

lemma read_ar_members_loop_Nil: "read_ar_members_loop [] members = Inr members"
  by (subst read_ar_members_loop.simps) (simp add: read_def)

lemma read_ar_members_loop_written:
  "list_all member_ok c \<Longrightarrow> list_all (\<lambda>m. rstrip_chars (fst m) ''/'' = fst m) c \<Longrightarrow>
   read_ar_members_loop (concat (map member_bytes c)) members = Inr (members @ c)"
proof (induction c arbitrary: members)
  case Nil
  then show ?case by (simp add: read_ar_members_loop_Nil)
next
  case (Cons m c)
  obtain name content where m: "m = (name, content)" by (cases m)
  from Cons.prems have ok: "member_ok (name, content)" "rstrip_chars name ''/'' = name"
    and rest: "list_all member_ok c" "list_all (\<lambda>m. rstrip_chars (fst m) ''/'' = fst m) c"
    by (simp_all add: m)
  show ?case
    using read_ar_members_loop_member [OF ok, of "concat (map member_bytes c)" members]
      Cons.IH [OF rest, of "members @ [(name, content)]"]
    by (simp add: m)
qed

lemma read_magic: "read (AR_MAGIC @ rest) 8 = (AR_MAGIC, rest)"
  by (simp add: read_def AR_MAGIC_def)

text \<open>
  C1, as stated: every container whose names have at most 16 bytes is read back as it
  was written. A name that ends in a space is written, and read back without the
  space: the header pads the name with spaces and both readers strip them.
\<close>

theorem container_round_trip_counterexample:
  "length ''a '' \<le> 16 \<and>
   (case write_container [(''a '', ''xyz'')] of
      Inl e \<Rightarrow> False
    | Inr written \<Rightarrow>
        read_members written = Inr [(''a'', ''xyz'')] \<and>
        read_ar_members written = Inr [(''a'', ''xyz'')])"
  by code_simp

text \<open>
  C1, amended: a container whose names are ASCII, at most 16 characters, without white
  space at either end, and whose contents are shorter than \<open>10\<^sup>1\<^sup>0\<close> bytes, is
  written without error, and \<^verbatim>\<open>read_members\<close> reads the written bytes back as
  the same sequence of names and contents; so does \<^verbatim>\<open>_read_ar_members\<close> when no
  name ends in a slash.
\<close>

theorem container_round_trip:
  assumes "list_all member_ok c"
  shows "\<exists>written. write_container c = Inr written \<and> read_members written = Inr c \<and>
           (list_all (\<lambda>m. rstrip_chars (fst m) ''/'' = fst m) c \<longrightarrow>
              read_ar_members written = Inr c)"
proof (intro exI conjI impI)
  show "write_container c = Inr (AR_MAGIC @ concat (map member_bytes c))"
    unfolding write_container_def using assms by (rule add_ar_members_ok)
  show "read_members (AR_MAGIC @ concat (map member_bytes c)) = Inr c"
    using read_members_loop_written [OF assms, of "[]"]
    by (simp add: read_members_def read_magic)
  assume "list_all (\<lambda>m. rstrip_chars (fst m) ''/'' = fst m) c"
  from read_ar_members_loop_written [OF assms this, of "[]"]
  show "read_ar_members (AR_MAGIC @ concat (map member_bytes c)) = Inr c"
    using read_magic [of "concat (map member_bytes c)"]
    by (simp add: read_ar_members_def AR_MAGIC_def)
qed

theorem container_round_trip_witness:
  "list_all member_ok [(''debian-binary'', ''2.0\<newline>''), (''data.tar.lzma'', ''xyz'')] \<and>
   (\<exists>written.
      write_container [(''debian-binary'', ''2.0\<newline>''), (''data.tar.lzma'', ''xyz'')] = Inr written \<and>
      read_members written = Inr [(''debian-binary'', ''2.0\<newline>''), (''data.tar.lzma'', ''xyz'')] \<and>
      read_ar_members written = Inr [(''debian-binary'', ''2.0\<newline>''), (''data.tar.lzma'', ''xyz'')])"
proof -
  have ok: "list_all member_ok [(''debian-binary'', ''2.0\<newline>''), (''data.tar.lzma'', ''xyz'')]"
    by (simp add: member_ok_def is_ascii_def strip_def is_space_def)
  have sl: "list_all (\<lambda>m. rstrip_chars (fst m) ''/'' = fst m)
      [(''debian-binary'', ''2.0\<newline>''), (''data.tar.lzma'', ''xyz'')]"
    by (simp add: rstrip_chars_def)
  from container_round_trip [OF ok] sl ok show ?thesis by blast
qed

section \<open>Properties of the package layout\<close>

lemma str_nat_0: "str_nat 0 = ''0''"
  by (simp add: str_nat.simps digit_char_def char_of_def bit_0)

lemma str_nat_100644: "str_nat 100644 = ''100644''"
  by (simp add: str_nat.simps digit_char_def char_of_def bit_0)

lemma assemble_add_eq:
  assumes "length name \<le> 16" "is_ascii name"
  shows "assemble_add out name content = Inr (out @ member_bytes (name, content))"
proof -
  have "take 16 (ljust name 16) = ljust name 16"
    using assms(1) by (simp add: length_ljust)
  then show ?thesis
    using is_ascii_ar_header [OF assms(2), of "length content"]
    by (simp add: assemble_add_def str_nat_0 str_nat_100644 member_bytes_def ar_header_def
        encode_ascii_def)
qed

lemma package_members_ok:
  assumes "length stamp < 10 ^ 10" "length control < 10 ^ 10" "length payload < 10 ^ 10"
  shows "list_all member_ok (package_members stamp control payload)"
  using assms by (simp add: package_members_def member_ok_def is_ascii_def strip_def is_space_def)

lemma write_deb_eq:
  "write_deb control_tgz data_lzma =
     write_container (package_members ''2.0\<newline>'' control_tgz data_lzma)"
  by (simp add: write_deb_def write_container_def package_members_def split: sum.splits)

lemma assemble_deb_eq:
  "assemble_deb compress debbin control_gz data_tar_bytes True =
     Inr (AR_MAGIC @ concat (map member_bytes
       (package_members (if debbin \<noteq> [] then debbin else ''2.0\<newline>'') control_gz
          (compress data_tar_bytes))))"
  by (simp add: assemble_deb_def assemble_add_eq is_ascii_def AR_MAGIC_def package_members_def)

lemma read_members_written:
  assumes "list_all member_ok c"
  shows "read_members (AR_MAGIC @ concat (map member_bytes c)) = Inr c"
  using read_members_loop_written [OF assms, of "[]"]
  by (simp add: read_members_def read_magic)

text \<open>
  C2, as stated: the version stamp of every package written is the constant
  \<^verbatim>\<open>2.0\<close> and a newline. \<^verbatim>\<open>_assemble_deb\<close> writes the stamp it is
  given, which is the stamp of the source package as \<^verbatim>\<open>_parse_deb\<close> found it,
  and the constant only in place of an empty one. (The compressor here is a stand-in;
  the stamp does not depend on it.)
\<close>

theorem package_layout_counterexample:
  "(case assemble_deb (\<lambda>tar. CHR 0x5D # tar) ''3.0\<newline>'' ''c'' ''t'' True of
      Inl e \<Rightarrow> False
    | Inr written \<Rightarrow>
        read_members written =
          Inr [(''debian-binary'', ''3.0\<newline>''), (''control.tar.gz'', ''c''),
               (''data.tar.lzma'', [CHR 0x5D, CHR ''t''])])"
proof -
  have "list_all member_ok (package_members ''3.0\<newline>'' ''c'' [CHR 0x5D, CHR ''t''])"
    by (simp add: package_members_ok)
  then have "read_members (AR_MAGIC @ concat (map member_bytes
      (package_members ''3.0\<newline>'' ''c'' [CHR 0x5D, CHR ''t'']))) =
      Inr (package_members ''3.0\<newline>'' ''c'' [CHR 0x5D, CHR ''t''])"
    by (rule read_members_written)
  then show ?thesis
    by (simp add: assemble_deb_eq) (simp add: package_members_def)
qed

text \<open>
  C2, amended: a package written by \<^verbatim>\<open>write_deb\<close> holds the members
  debian-binary, control.tar.gz and data.tar.lzma in this order, the first with the
  content \<^verbatim>\<open>2.0\<close> and a newline; a package written by
  \<^verbatim>\<open>_assemble_deb\<close> with \<^verbatim>\<open>lzma_alone=True\<close>, as the assembler calls
  it, holds members of the same names in the same order, the first with the stamp
  passed in (the constant when that is empty). Each content is taken shorter than
  \<open>10\<^sup>1\<^sup>0\<close> bytes, so that its size fits the header.
\<close>

theorem package_layout:
  assumes "length control < 10 ^ 10" "length payload < 10 ^ 10"
    "length debbin < 10 ^ 10" "length (compress data_tar) < 10 ^ 10"
  shows "(\<exists>written. write_deb control payload = Inr written \<and>
            read_members written =
              Inr [(''debian-binary'', ''2.0\<newline>''), (''control.tar.gz'', control),
                   (''data.tar.lzma'', payload)]) \<and>
         (\<exists>written. assemble_deb compress debbin control data_tar True = Inr written \<and>
            read_members written =
              Inr [(''debian-binary'', if debbin \<noteq> [] then debbin else ''2.0\<newline>''),
                   (''control.tar.gz'', control), (''data.tar.lzma'', compress data_tar)])"
proof (rule conjI)
  have ok: "list_all member_ok (package_members ''2.0\<newline>'' control payload)"
    using assms(1,2) by (simp add: package_members_ok)
  have "write_deb control payload =
      Inr (AR_MAGIC @ concat (map member_bytes (package_members ''2.0\<newline>'' control payload)))"
    unfolding write_deb_eq write_container_def using ok by (rule add_ar_members_ok)
  moreover note read_members_written [OF ok]
  ultimately show "\<exists>written. write_deb control payload = Inr written \<and>
      read_members written =
        Inr [(''debian-binary'', ''2.0\<newline>''), (''control.tar.gz'', control),
             (''data.tar.lzma'', payload)]"
    by (simp add: package_members_def)
next
  let ?stamp = "if debbin \<noteq> [] then debbin else ''2.0\<newline>''"
  have "length ?stamp < 10 ^ 10" using assms(3) by simp
  then have ok: "list_all member_ok (package_members ?stamp control (compress data_tar))"
    using assms(1,4) by (rule package_members_ok)
  from read_members_written [OF ok] assemble_deb_eq [of compress debbin control data_tar]
  show "\<exists>written. assemble_deb compress debbin control data_tar True = Inr written \<and>
      read_members written =
        Inr [(''debian-binary'', ?stamp), (''control.tar.gz'', control),
             (''data.tar.lzma'', compress data_tar)]"
    by (simp add: package_members_def)
qed

theorem package_layout_witness:
  "(\<exists>written. write_deb ''c'' ''p'' = Inr written \<and>
      read_members written =
        Inr [(''debian-binary'', ''2.0\<newline>''), (''control.tar.gz'', ''c''),
             (''data.tar.lzma'', ''p'')]) \<and>
   (\<exists>written. assemble_deb (\<lambda>tar. CHR 0x5D # tar) ''2.0\<newline>'' ''c'' ''t'' True = Inr written \<and>
      read_members written =
        Inr [(''debian-binary'', ''2.0\<newline>''), (''control.tar.gz'', ''c''),
             (''data.tar.lzma'', [CHR 0x5D, CHR ''t''])])"
  using package_layout [of "''c''" "''p''" "''2.0\<newline>''" "\<lambda>tar. CHR 0x5D # tar" "''t''"]
  by simp

section \<open>Properties of the file-archive builders\<close>

lemma list_all_concat: "list_all P (concat xss) = list_all (list_all P) xss"
  by (induction xss) simp_all

lemma data_file_entry_owner: "owner_is ''root'' ''wheel'' (data_file_entry dname root f)"
  by (cases f) (simp add: data_file_entry_def owner_is_def gettarinfo_def)

lemma data_dir_entry_owner: "owner_is ''root'' ''wheel'' (data_dir_entry root d)"
  by (cases d) (simp add: data_dir_entry_def owner_is_def TarInfo_def)

lemma control_file_entry_owner: "owner_is ''root'' ''wheel'' (control_file_entry root f)"
  by (cases f) (simp add: control_file_entry_def owner_is_def gettarinfo_def)

text \<open>
  C8, as stated: the entries of the payload archive carry the group name root. The
  builder sets \<^verbatim>\<open>gname = 'wheel'\<close> on every entry of the payload archive too.
\<close>

theorem payload_owner_counterexample:
  "map (\<lambda>e. (ti_uname (fst e), ti_gname (fst e)))
     (build_data_tar_from_dir ''data_files'' [File ''a'' example_stat ''x'']) =
   [(''root'', ''wheel'')]"
  by (simp add: build_data_tar_from_dir_def data_file_entry_def gettarinfo_def walk.simps)

text \<open>
  C8, amended: every entry of the payload archive and every entry of the metadata
  archive carries uid 0, gid 0, user name root and group name wheel.
\<close>

theorem archive_owner:
  "list_all (owner_is ''root'' ''wheel'') (build_data_tar_from_dir dname data_dir) \<and>
   list_all (owner_is ''root'' ''wheel'') (build_control_tar_from_dir control_dir)"
proof
  show "list_all (owner_is ''root'' ''wheel'') (build_data_tar_from_dir dname data_dir)"
    unfolding build_data_tar_from_dir_def list_all_concat
    by (auto simp: list_all_iff data_file_entry_owner data_dir_entry_owner)
  show "list_all (owner_is ''root'' ''wheel'') (build_control_tar_from_dir control_dir)"
    unfolding build_control_tar_from_dir_def list_all_concat
    by (auto simp: list_all_iff control_file_entry_owner)
qed

text \<open>
  C7 says that two builds of the same tree are byte-identical because every entry's
  timestamp is set to zero. The definition of \<^verbatim>\<open>_build_data_tar_from_dir\<close>
  that runs copies each file's modification time into its entry, and so do
  \<^verbatim>\<open>_build_control_tar_gz_from_dir\<close> and \<^verbatim>\<open>build_control_tar\<close>; only the
  definition that is replaced sets the time to zero.
\<close>

theorem build_copies_file_mtime:
  "map (\<lambda>e. ti_mtime (fst e)) (build_data_tar_from_dir dname [File name st content]) =
     [st_mtime st] \<and>
   map (\<lambda>e. ti_mtime (fst e)) (build_control_tar_from_dir [File name st content]) =
     [st_mtime st] \<and>
   map (\<lambda>e. ti_mtime (fst e)) (build_control_tar [File name st content]) = [st_mtime st] \<and>
   map (\<lambda>e. ti_mtime (fst e)) (shadowed_build_data_tar_from_dir [File name st content]) = [0]"
  by (simp add: build_data_tar_from_dir_def data_file_entry_def gettarinfo_def walk.simps
      build_control_tar_from_dir_def control_file_entry_def shadowed_build_data_tar_from_dir_def
      build_control_tar_def rglob.simps child_def add_path_def is_dir_def is_file_def)

text \<open>So two trees that differ only in a file's modification time give different archives.\<close>

lemma build_not_deterministic:
  "build_data_tar_from_dir ''data_files'' [File ''a'' (example_stat\<lparr>st_mtime := 1\<rparr>) ''x''] \<noteq>
   build_data_tar_from_dir ''data_files'' [File ''a'' (example_stat\<lparr>st_mtime := 2\<rparr>) ''x'']"
  by (simp add: build_data_tar_from_dir_def data_file_entry_def gettarinfo_def walk.simps)

lemma shadowed_build_mtime_zero:
  "list_all (\<lambda>e. ti_mtime (fst e) = 0) (shadowed_build_data_tar_from_dir src_dir)"
  unfolding shadowed_build_data_tar_from_dir_def list_all_concat
  by (auto simp: list_all_iff TarInfo_def)

lemma add_path_type:
  "ti_type (fst (add_path p)) = (if is_dir p then DIRTYPE else REGTYPE)"
  by (cases p; cases "snd p")
    (simp_all add: add_path_def is_dir_def gettarinfo_def gettarinfo_dir_def)

lemma is_file_not_dir: "is_file p \<longleftrightarrow> \<not> is_dir p"
  by (cases "snd p") (simp_all add: is_file_def is_dir_def)

text \<open>
  C9 says that every directory, an empty one too, has an entry before the entries
  below it. The builder of change\_maintainer.py adds no directory entry at all: its
  entries are regular files, a directory shows only in the names of the files in it,
  and an empty directory is lost. The builder of deb\_packer.py, on the same tree,
  adds the directory first.
\<close>

theorem cm_build_data_tar_drops_directories:
  "list_all (\<lambda>e. ti_type (fst e) = REGTYPE) (cm_build_data_tar data_dir) \<and>
   cm_build_data_tar [Dir ''var'' st [File ''a'' st' content]] =
     [(gettarinfo st' content ''var/a'', content)] \<and>
   cm_build_data_tar [Dir ''var'' st []] = [] \<and>
   build_data_tar [Dir ''var'' st [File ''a'' st' content]] =
     [(gettarinfo_dir st ''var'', []), (gettarinfo st' content ''var/a'', content)]"
proof (intro conjI)
  show "list_all (\<lambda>e. ti_type (fst e) = REGTYPE) (cm_build_data_tar data_dir)"
    by (auto simp: cm_build_data_tar_def list_all_iff add_path_type is_file_not_dir)
qed (simp_all add: cm_build_data_tar_def build_data_tar_def add_path_def is_file_def is_dir_def
    child_def rglob.simps)

lemma build_data_tar_directories_first:
  "\<exists>ds fs. build_data_tar data_dir = ds @ fs \<and>
     list_all (\<lambda>e. ti_type (fst e) = DIRTYPE) ds \<and>
     list_all (\<lambda>e. ti_type (fst e) = REGTYPE) fs"
  unfolding build_data_tar_def
  by (intro exI conjI, rule refl)
    (auto simp: list_all_iff add_path_type is_file_not_dir)

section \<open>Properties of the legacy stream codec\<close>

lemma read_ar_members_written:
  assumes "list_all member_ok c" "list_all (\<lambda>m. rstrip_chars (fst m) ''/'' = fst m) c"
  shows "read_ar_members (AR_MAGIC @ concat (map member_bytes c)) = Inr c"
  using read_ar_members_loop_written [OF assms, of "[]"]
    read_magic [of "concat (map member_bytes c)"]
  by (simp add: read_ar_members_def AR_MAGIC_def)

lemma package_members_no_slash:
  "list_all (\<lambda>m. rstrip_chars (fst m) ''/'' = fst m) (package_members stamp control payload)"
  by (simp add: package_members_def rstrip_chars_def)

lemma write_package:
  assumes "length stamp < 10 ^ 10" "length control < 10 ^ 10" "length payload < 10 ^ 10"
  shows "write_container (package_members stamp control payload) =
         Inr (AR_MAGIC @ concat (map member_bytes (package_members stamp control payload)))"
  unfolding write_container_def
  using package_members_ok [OF assms] by (rule add_ar_members_ok)

lemma parse_deb_package:
  assumes "length stamp < 10 ^ 10" "length control < 10 ^ 10" "length payload < 10 ^ 10"
    and "stamp \<noteq> []" "control \<noteq> []" "payload \<noteq> []"
  shows "parse_deb dec_alone dec_auto
           (AR_MAGIC @ concat (map member_bytes (package_members stamp control payload))) =
         (case dec_alone payload of
            Some raw_tar \<Rightarrow>
              Inr \<lparr>debian_binary = stamp, control_tar_gz = control,
                   data_member_name = ''data.tar.lzma'', data_payload_bytes = payload,
                   data_tar_raw = raw_tar\<rparr>
          | None \<Rightarrow>
              (case dec_auto payload of
                 Some raw_tar \<Rightarrow>
                   Inr \<lparr>debian_binary = stamp, control_tar_gz = control,
                        data_member_name = ''data.tar.lzma'', data_payload_bytes = payload,
                        data_tar_raw = raw_tar\<rparr>
               | None \<Rightarrow> Inl LZMAError))"
proof -
  have "read_ar_members
      (AR_MAGIC @ concat (map member_bytes (package_members stamp control payload))) =
      Inr (package_members stamp control payload)"
    using package_members_ok [OF assms(1-3)] package_members_no_slash
    by (rule read_ar_members_written)
  then show ?thesis
    using assms(4-6)
    by (simp add: parse_deb_def)
      (simp add: package_members_def startswith_def endswith_def split: option.splits)
qed

lemma validate_members_xz:
  assumes "slice payload 0 2 = [CHR 0xFD, CHR ''7'']"
  shows "validate_members getnames (package_members ''2.0\<newline>'' control payload) =
         Inr (FAIL ''XZ container used'')"
proof -
  have "payload = take 2 payload @ drop 2 payload" by simp
  with assms have "payload = CHR 0xFD # CHR ''7'' # drop 2 payload"
    by (simp add: slice_def)
  then obtain rest where payload: "payload = CHR 0xFD # CHR ''7'' # rest" ..
  show ?thesis
    unfolding payload
    by (simp add: validate_members_def package_members_def next_data_def startswith_def
        slice_def Let_def)
qed

lemma props_byte_not_magic: "char_of (Rep_props_byte p) \<noteq> CHR 0xFD"
proof
  assume "char_of (Rep_props_byte p) = CHR 0xFD"
  then have "(of_char (char_of (Rep_props_byte p)) :: nat) = of_char CHR 0xFD"
    by (rule arg_cong)
  moreover have "Rep_props_byte p \<le> 224"
    using Rep_props_byte [of p] by simp
  ultimately show False by simp
qed

lemma xz_stream_t_magic: "startswith xz_stream_t XZ_MAGIC"
  by (simp add: xz_stream_t_def XZ_MAGIC_def startswith_def)

lemma xz_stream_t_length: "length xz_stream_t = 60"
  by (simp add: xz_stream_t_def)

text \<open>
  C5, as stated: decompressing modern-framing bytes fails. \<^verbatim>\<open>_parse_deb\<close>
  catches the \<^verbatim>\<open>LZMAError\<close> of the legacy decoder and decodes again with the
  decoder that detects the framing. The payload here is the xz stream of the byte
  \<open>t\<close>, and the two decoders answer on it as the library does: the legacy decoder
  raises, the detecting decoder returns \<open>t\<close>. The package is parsed without error.
\<close>

theorem legacy_decompress_counterexample:
  "startswith xz_stream_t XZ_MAGIC \<and>
   (case write_container
           [(''debian-binary'', ''2.0\<newline>''), (''control.tar.gz'', ''c''),
            (''data.tar.lzma'', xz_stream_t)] of
      Inl e \<Rightarrow> False
    | Inr deb \<Rightarrow>
        (case parse_deb (\<lambda>b. None) (\<lambda>b. if b = xz_stream_t then Some ''t'' else None) deb of
           Inl e \<Rightarrow> False
         | Inr parsed \<Rightarrow> data_tar_raw parsed = ''t''))"
proof -
  have w: "write_container (package_members ''2.0\<newline>'' ''c'' xz_stream_t) =
      Inr (AR_MAGIC @ concat (map member_bytes
        (package_members ''2.0\<newline>'' ''c'' xz_stream_t)))"
    by (rule write_package) (simp_all add: xz_stream_t_length)
  have ne: "xz_stream_t \<noteq> []"
    using xz_stream_t_length by auto
  have p: "parse_deb (\<lambda>b. None) (\<lambda>b. if b = xz_stream_t then Some ''t'' else None)
      (AR_MAGIC @ concat (map member_bytes
        (package_members ''2.0\<newline>'' ''c'' xz_stream_t))) =
      Inr \<lparr>debian_binary = ''2.0\<newline>'', control_tar_gz = ''c'',
           data_member_name = ''data.tar.lzma'', data_payload_bytes = xz_stream_t,
           data_tar_raw = ''t''\<rparr>"
    using ne by (subst parse_deb_package) (simp_all add: xz_stream_t_length)
  from w [unfolded package_members_def] p xz_stream_t_magic show ?thesis
    by (simp add: package_members_def)
qed

text \<open>
  C5, amended: for every input, the output of the legacy compressor begins with the
  properties byte and the four bytes of the dictionary size, and its first five bytes
  are not those of the xz magic (its first byte already differs). On the payload of a
  package, \<^verbatim>\<open>_parse_deb\<close> returns what the legacy decoder returns and, when that
  decoder raises, what the detecting decoder returns; it fails (with
  \<^verbatim>\<open>LZMAError\<close>) only when both decoders fail. The validator fails a package
  whose payload begins with the first two bytes of the xz magic.
\<close>

theorem legacy_framing:
  "compress_lzma_alone preset_params body raw_tar preset =
     char_of (Rep_props_byte (fst (preset_params preset))) #
     le32 (snd (preset_params preset)) @ body preset raw_tar \<and>
   take 5 (compress_lzma_alone preset_params body raw_tar preset) \<noteq> take 5 XZ_MAGIC \<and>
   take 1 (compress_lzma_alone preset_params body raw_tar preset) \<noteq> take 1 XZ_MAGIC \<and>
   (length stamp < 10 ^ 10 \<and> length control < 10 ^ 10 \<and> length payload < 10 ^ 10 \<and>
    stamp \<noteq> [] \<and> control \<noteq> [] \<and> payload \<noteq> [] \<longrightarrow>
      (\<exists>deb. write_container (package_members stamp control payload) = Inr deb \<and>
         parse_deb dec_alone dec_auto deb =
           (case dec_alone payload of
              Some raw_tar \<Rightarrow>
                Inr \<lparr>debian_binary = stamp, control_tar_gz = control,
                     data_member_name = ''data.tar.lzma'', data_payload_bytes = payload,
                     data_tar_raw = raw_tar\<rparr>
            | None \<Rightarrow>
                (case dec_auto payload of
                   Some raw_tar \<Rightarrow>
                     Inr \<lparr>debian_binary = stamp, control_tar_gz = control,
                          data_member_name = ''data.tar.lzma'', data_payload_bytes = payload,
                          data_tar_raw = raw_tar\<rparr>
                 | None \<Rightarrow> Inl LZMAError)))) \<and>
   (slice payload 0 2 = [CHR 0xFD, CHR ''7''] \<longrightarrow>
      validate_members getnames (package_members ''2.0\<newline>'' control payload) =
        Inr (FAIL ''XZ container used''))"
proof (intro conjI impI)
  show "compress_lzma_alone preset_params body raw_tar preset =
        char_of (Rep_props_byte (fst (preset_params preset))) #
        le32 (snd (preset_params preset)) @ body preset raw_tar"
    by (simp add: compress_lzma_alone_def lzma_compress_alone_def split_def)
next
  show "take 5 (compress_lzma_alone preset_params body raw_tar preset) \<noteq> take 5 XZ_MAGIC"
    by (simp add: compress_lzma_alone_def lzma_compress_alone_def XZ_MAGIC_def split_def
        props_byte_not_magic)
next
  show "take 1 (compress_lzma_alone preset_params body raw_tar preset) \<noteq> take 1 XZ_MAGIC"
    by (simp add: compress_lzma_alone_def lzma_compress_alone_def XZ_MAGIC_def split_def
        props_byte_not_magic)
next
  assume a: "length stamp < 10 ^ 10 \<and> length control < 10 ^ 10 \<and> length payload < 10 ^ 10 \<and>
    stamp \<noteq> [] \<and> control \<noteq> [] \<and> payload \<noteq> []"
  then have "write_container (package_members stamp control payload) =
      Inr (AR_MAGIC @ concat (map member_bytes (package_members stamp control payload)))"
    by (simp add: write_package)
  moreover from a have "parse_deb dec_alone dec_auto
      (AR_MAGIC @ concat (map member_bytes (package_members stamp control payload))) =
      (case dec_alone payload of
         Some raw_tar \<Rightarrow>
           Inr \<lparr>debian_binary = stamp, control_tar_gz = control,
                data_member_name = ''data.tar.lzma'', data_payload_bytes = payload,
                data_tar_raw = raw_tar\<rparr>
       | None \<Rightarrow>
           (case dec_auto payload of
              Some raw_tar \<Rightarrow>
                Inr \<lparr>debian_binary = stamp, control_tar_gz = control,
                     data_member_name = ''data.tar.lzma'', data_payload_bytes = payload,
                     data_tar_raw = raw_tar\<rparr>
            | None \<Rightarrow> Inl LZMAError))"
    by (simp add: parse_deb_package)
  ultimately show "\<exists>deb. write_container (package_members stamp control payload) = Inr deb \<and>
      parse_deb dec_alone dec_auto deb =
        (case dec_alone payload of
           Some raw_tar \<Rightarrow>
             Inr \<lparr>debian_binary = stamp, control_tar_gz = control,
                  data_member_name = ''data.tar.lzma'', data_payload_bytes = payload,
                  data_tar_raw = raw_tar\<rparr>
         | None \<Rightarrow>
             (case dec_auto payload of
                Some raw_tar \<Rightarrow>
                  Inr \<lparr>debian_binary = stamp, control_tar_gz = control,
                       data_member_name = ''data.tar.lzma'', data_payload_bytes = payload,
                       data_tar_raw = raw_tar\<rparr>
              | None \<Rightarrow> Inl LZMAError))"
    by blast
next
  assume "slice payload 0 2 = [CHR 0xFD, CHR ''7'']"
  then show "validate_members getnames (package_members ''2.0\<newline>'' control payload) =
      Inr (FAIL ''XZ container used'')"
    by (rule validate_members_xz)
qed

theorem legacy_framing_witness:
  "length ''2.0\<newline>'' < 10 ^ 10 \<and> length ''c'' < 10 ^ 10 \<and> length xz_stream_t < 10 ^ 10 \<and>
   ''2.0\<newline>'' \<noteq> [] \<and> ''c'' \<noteq> [] \<and> xz_stream_t \<noteq> [] \<and>
   slice xz_stream_t 0 2 = [CHR 0xFD, CHR ''7''] \<and>
   compress_lzma_alone (\<lambda>p. (Abs_props_byte 0x5D, 0x800000)) (\<lambda>p d. d) ''abc'' 6 =
     [CHR 0x5D, CHR 0x00, CHR 0x00, CHR 0x80, CHR 0x00] @ ''abc'' \<and>
   (\<exists>deb. write_container (package_members ''2.0\<newline>'' ''c'' xz_stream_t) = Inr deb \<and>
      parse_deb (\<lambda>b. None) (\<lambda>b. if b = xz_stream_t then Some ''t'' else None) deb =
        Inr \<lparr>debian_binary = ''2.0\<newline>'', control_tar_gz = ''c'',
             data_member_name = ''data.tar.lzma'', data_payload_bytes = xz_stream_t,
             data_tar_raw = ''t''\<rparr>) \<and>
   validate_members (\<lambda>b. Some [''control'']) (package_members ''2.0\<newline>'' ''c'' xz_stream_t) =
     Inr (FAIL ''XZ container used'')"
proof -
  have h2: "length ''2.0\<newline>'' < 10 ^ 10 \<and> length ''c'' < 10 ^ 10 \<and>
      length xz_stream_t < 10 ^ 10 \<and> ''2.0\<newline>'' \<noteq> [] \<and> ''c'' \<noteq> [] \<and> xz_stream_t \<noteq> []"
    using xz_stream_t_length by auto
  have h3: "slice xz_stream_t 0 2 = [CHR 0xFD, CHR ''7'']"
    by (simp add: xz_stream_t_def slice_def)
  have h4: "Rep_props_byte (Abs_props_byte 0x5D) = 0x5D"
    by (simp add: Abs_props_byte_inverse)
  from h2 h3
    legacy_framing [where preset_params = "\<lambda>p. (Abs_props_byte 0x5D, 0x800000)" and preset = 6
      and body = "\<lambda>p d. d" and raw_tar = "''abc''" and stamp = "''2.0\<newline>''"
      and control = "''c''" and payload = "xz_stream_t" and dec_alone = "\<lambda>b. None"
      and dec_auto = "\<lambda>b. if b = xz_stream_t then Some ''t'' else None"
      and getnames = "\<lambda>b. Some [''control'']"]
  have "compress_lzma_alone (\<lambda>p. (Abs_props_byte 0x5D, 0x800000)) (\<lambda>p d. d) ''abc'' 6 =
        char_of (Rep_props_byte (Abs_props_byte 0x5D)) # le32 0x800000 @ ''abc''"
    and "\<exists>deb. write_container (package_members ''2.0\<newline>'' ''c'' xz_stream_t) = Inr deb \<and>
      parse_deb (\<lambda>b. None) (\<lambda>b. if b = xz_stream_t then Some ''t'' else None) deb =
        (case (\<lambda>b. None :: bytes option) xz_stream_t of
           Some raw_tar \<Rightarrow>
             Inr \<lparr>debian_binary = ''2.0\<newline>'', control_tar_gz = ''c'',
                  data_member_name = ''data.tar.lzma'', data_payload_bytes = xz_stream_t,
                  data_tar_raw = raw_tar\<rparr>
         | None \<Rightarrow>
             (case (\<lambda>b. if b = xz_stream_t then Some ''t'' else None) xz_stream_t of
                Some raw_tar \<Rightarrow>
                  Inr \<lparr>debian_binary = ''2.0\<newline>'', control_tar_gz = ''c'',
                       data_member_name = ''data.tar.lzma'', data_payload_bytes = xz_stream_t,
                       data_tar_raw = raw_tar\<rparr>
              | None \<Rightarrow> Inl LZMAError))"
    and "validate_members (\<lambda>b. Some [''control''])
        (package_members ''2.0\<newline>'' ''c'' xz_stream_t) =
      Inr (FAIL ''XZ container used'')"
    by simp_all
  with h2 h3 h4 show ?thesis
    by (simp add: le32_def char_of_def bit_0)
qed

section \<open>Order of the entries that deb\_packer.py writes\<close>

text \<open>
  \<^verbatim>\<open>build_data_tar\<close> of deb\_packer.py gives every directory of the tree an
  entry, an empty one too, and puts it before every entry that lies below it: the
  listing names a directory before what is in it, and the directories are added
  before the files.
\<close>

lemma below_child: "below root (root @ [name])"
  by (simp add: below_def)

lemma below_trans:
  assumes "below a b" "below b c"
  shows "below a c"
proof -
  from assms obtain r1 r2 where "r1 \<noteq> []" "b = a @ r1" "r2 \<noteq> []" "c = b @ r2"
    unfolding below_def by blast
  then have "r1 @ r2 \<noteq> [] \<and> c = a @ (r1 @ r2)" by simp
  then show ?thesis unfolding below_def by blast
qed

lemma below_child_cases:
  assumes "below root q" "below q p" "below (root @ [name]) p"
  shows "q = root @ [name] \<or> below (root @ [name]) q"
proof -
  from assms obtain r1 r2 r3 where r: "r1 \<noteq> []" "q = root @ r1" "r2 \<noteq> []" "p = q @ r2"
    "p = (root @ [name]) @ r3"
    unfolding below_def by blast
  then have "r1 @ r2 = name # r3" by simp
  with r(1) obtain r1' where "r1 = name # r1'"
    by (cases r1) auto
  with r(2) have q: "q = (root @ [name]) @ r1'" by simp
  show ?thesis
  proof (cases "r1' = []")
    case True
    with q show ?thesis by simp
  next
    case False
    with q have "below (root @ [name]) q" unfolding below_def by blast
    then show ?thesis ..
  qed
qed

lemma not_between_child: "below root q \<Longrightarrow> below q (root @ [name]) \<Longrightarrow> False"
proof -
  assume "below root q" "below q (root @ [name])"
  then obtain r1 r2 where "r1 \<noteq> []" "r2 \<noteq> []" "root @ [name] = (root @ r1) @ r2"
    unfolding below_def by blast
  then have "[name] = r1 @ r2" "r1 \<noteq> []" "r2 \<noteq> []" by simp_all
  then show False
    by (cases r1; cases r2) auto
qed

lemma child_path: "\<exists>name. fst (child root e) = root @ [name]"
  by (cases e) (simp_all add: child_def)

lemma child_in_map:
  assumes "(p, k) \<in> set (map (child root) entries)"
  shows "\<exists>name. p = root @ [name]"
proof -
  from assms obtain e where "(p, k) = child root e" by auto
  with child_path [of root e] show ?thesis by (metis fst_conv)
qed

lemma rglob_paths_below:
  "(p, k) \<in> set (rglob root es) \<Longrightarrow> below root p"
  "(p, k) \<in> set (rglob_subdirs root es) \<Longrightarrow>
     \<exists>name st cs. Dir name st cs \<in> set es \<and> below (root @ [name]) p"
proof (induction root es and root es arbitrary: p k and p k rule: rglob_rglob_subdirs.induct)
  case (1 root entries)
  from "1.prems" consider "(p, k) \<in> set (map (child root) entries)"
    | "(p, k) \<in> set (rglob_subdirs root entries)"
    by (auto simp: rglob.simps)
  then show ?case
  proof cases
    case 1
    then have "\<exists>name. p = root @ [name]" by (rule child_in_map)
    then show ?thesis by (auto simp: below_child)
  next
    case 2
    then obtain name where "below (root @ [name]) p"
      using "1.IH" by blast
    with below_child show ?thesis by (rule below_trans)
  qed
next
  case (2 root)
  then show ?case by simp
next
  case (3 root name st content es)
  from "3.prems" have "(p, k) \<in> set (rglob_subdirs root es)" by simp
  from "3.IH" [OF this] show ?case by auto
next
  case (4 root name st children es)
  from "4.prems" consider "(p, k) \<in> set (rglob (root @ [name]) children)"
    | "(p, k) \<in> set (rglob_subdirs root es)"
    by auto
  then show ?case
  proof cases
    case 1
    then have "below (root @ [name]) p" by (rule "4.IH"(1))
    then show ?thesis by auto
  next
    case 2
    from "4.IH"(2) [OF this] show ?thesis by auto
  qed
qed

lemma in_second_part:
  "as @ bs = xs @ y # ys \<Longrightarrow>
   (\<exists>us. as = xs @ y # us) \<or> (\<exists>us. xs = as @ us \<and> bs = us @ y # ys)"
proof (induction as arbitrary: xs)
  case Nil
  then show ?case by simp
next
  case (Cons a as)
  show ?case
  proof (cases xs)
    case Nil
    with Cons.prems show ?thesis by simp
  next
    case (Cons x xs')
    with Cons.prems have "a = x" "as @ bs = xs' @ y # ys" by simp_all
    with Cons.IH [of xs'] Cons show ?thesis by auto
  qed
qed

lemma dir_in_tail:
  "(\<exists>name st cs. Dir name st cs \<in> set es \<and> q = root @ [name]) \<Longrightarrow>
   (\<exists>name st cs. Dir name st cs \<in> set (e # es) \<and> q = root @ [name])"
proof -
  assume "\<exists>name st cs. Dir name st cs \<in> set es \<and> q = root @ [name]"
  then obtain name st cs where "Dir name st cs \<in> set es" "q = root @ [name]" by blast
  then have "Dir name st cs \<in> set (e # es) \<and> q = root @ [name]" by simp
  then show ?thesis by blast
qed

lemma rglob_parent_first:
  "rglob root es = xs @ (p, k) # ys \<Longrightarrow> below root q \<Longrightarrow> below q p \<Longrightarrow>
     \<exists>st. (q, IsDir st) \<in> set xs"
  "rglob_subdirs root es = xs @ (p, k) # ys \<Longrightarrow> below root q \<Longrightarrow> below q p \<Longrightarrow>
     (\<exists>st. (q, IsDir st) \<in> set xs) \<or>
     (\<exists>name st cs. Dir name st cs \<in> set es \<and> q = root @ [name])"
proof (induction root es and root es arbitrary: xs p k ys q and xs p k ys q
    rule: rglob_rglob_subdirs.induct)
  case (1 root entries)
  from "1.prems"(1) have eq: "map (child root) entries @ rglob_subdirs root entries = xs @ (p, k) # ys"
    by (simp add: rglob.simps)
  from in_second_part [OF eq] show ?case
  proof (elim disjE exE conjE)
    fix us
    assume "map (child root) entries = xs @ (p, k) # us"
    then have "(p, k) \<in> set (map (child root) entries)" by simp
    then have "\<exists>name. p = root @ [name]" by (rule child_in_map)
    then obtain name where "p = root @ [name]" ..
    with "1.prems"(3) have "below q (root @ [name])" by simp
    with "1.prems"(2) have False by (rule not_between_child)
    then show ?thesis ..
  next
    fix us
    assume xs: "xs = map (child root) entries @ us"
      and sub: "rglob_subdirs root entries = us @ (p, k) # ys"
    from sub "1.prems"(2,3)
    have "(\<exists>st. (q, IsDir st) \<in> set us) \<or>
        (\<exists>name st cs. Dir name st cs \<in> set entries \<and> q = root @ [name])"
      by (rule "1.IH")
    then show ?thesis
    proof
      assume "\<exists>st. (q, IsDir st) \<in> set us"
      then obtain st where "(q, IsDir st) \<in> set us" ..
      then have "(q, IsDir st) \<in> set xs" by (simp add: xs)
      then show ?thesis ..
    next
      assume "\<exists>name st cs. Dir name st cs \<in> set entries \<and> q = root @ [name]"
      then obtain name st cs where d: "Dir name st cs \<in> set entries" and q: "q = root @ [name]"
        by blast
      from d have "child root (Dir name st cs) \<in> child root ` set entries" by (rule imageI)
      then have "(q, IsDir st) \<in> set (map (child root) entries)"
        by (simp add: child_def q)
      then have "(q, IsDir st) \<in> set xs" by (simp add: xs)
      then show ?thesis ..
    qed
  qed
next
  case (2 root)
  then show ?case by simp
next
  case (3 root name st content es)
  from "3.prems"(1) have "rglob_subdirs root es = xs @ (p, k) # ys" by simp
  from this "3.prems"(2,3)
  have "(\<exists>st. (q, IsDir st) \<in> set xs) \<or>
      (\<exists>name st cs. Dir name st cs \<in> set es \<and> q = root @ [name])"
    by (rule "3.IH")
  then show ?case
    using dir_in_tail [of es q root "File name st content"] by blast
next
  case (4 root name st children es)
  from "4.prems"(1)
  have eq: "rglob (root @ [name]) children @ rglob_subdirs root es = xs @ (p, k) # ys"
    by simp
  from in_second_part [OF eq] show ?case
  proof (elim disjE exE conjE)
    fix us
    assume first: "rglob (root @ [name]) children = xs @ (p, k) # us"
    then have "(p, k) \<in> set (rglob (root @ [name]) children)" by simp
    then have "below (root @ [name]) p" by (rule rglob_paths_below(1))
    with "4.prems"(2,3) have "q = root @ [name] \<or> below (root @ [name]) q"
      by (rule below_child_cases)
    then show ?thesis
    proof
      assume "q = root @ [name]"
      then have "Dir name st children \<in> set (Dir name st children # es) \<and> q = root @ [name]"
        by simp
      then show ?thesis by blast
    next
      assume "below (root @ [name]) q"
      with first have "\<exists>st. (q, IsDir st) \<in> set xs"
        using "4.prems"(3) by (rule "4.IH"(1))
      then show ?thesis ..
    qed
  next
    fix us
    assume xs: "xs = rglob (root @ [name]) children @ us"
      and sub: "rglob_subdirs root es = us @ (p, k) # ys"
    from sub "4.prems"(2,3)
    have "(\<exists>st. (q, IsDir st) \<in> set us) \<or>
        (\<exists>name st cs. Dir name st cs \<in> set es \<and> q = root @ [name])"
      by (rule "4.IH"(2))
    then show ?thesis
    proof
      assume "\<exists>st. (q, IsDir st) \<in> set us"
      then obtain st' where "(q, IsDir st') \<in> set us" ..
      then have "(q, IsDir st') \<in> set xs" by (simp add: xs)
      then show ?thesis by blast
    next
      assume "\<exists>name st cs. Dir name st cs \<in> set es \<and> q = root @ [name]"
      then show ?thesis
        using dir_in_tail [of es q root "Dir name st children"] by blast
    qed
  qed
qed


lemma rglob_subdirs_mono:
  "Dir name st cs \<in> set es \<Longrightarrow> set (rglob (root @ [name]) cs) \<subseteq> set (rglob_subdirs root es)"
proof (induction es)
  case Nil
  then show ?case by simp
next
  case (Cons e es)
  show ?case
  proof (cases "e = Dir name st cs")
    case True
    then show ?thesis by simp
  next
    case False
    with Cons.prems have "Dir name st cs \<in> set es" by simp
    then have "set (rglob (root @ [name]) cs) \<subseteq> set (rglob_subdirs root es)"
      by (rule Cons.IH)
    then show ?thesis by (cases e) auto
  qed
qed

lemma rglob_lists_directory:
  "has_dir es q st \<Longrightarrow> (root @ q, IsDir st) \<in> set (rglob root es)"
proof (induction arbitrary: root rule: has_dir.induct)
  case (here name st cs es)
  then have "child root (Dir name st cs) \<in> child root ` set es" by (rule imageI)
  then show ?case by (simp add: rglob.simps child_def)
next
  case (deeper name st cs es q st')
  have "((root @ [name]) @ q, IsDir st') \<in> set (rglob (root @ [name]) cs)"
    by (rule deeper.IH)
  with rglob_subdirs_mono [OF deeper.hyps(1), of root]
  have "((root @ [name]) @ q, IsDir st') \<in> set (rglob_subdirs root es)" by blast
  then show ?case by (simp add: rglob.simps)
qed

lemma filter_eq_append_ConsD:
  "filter P xs = ys @ z # zs \<Longrightarrow> \<exists>as bs. xs = as @ z # bs \<and> filter P as = ys"
proof (induction xs arbitrary: ys)
  case Nil
  then show ?case by simp
next
  case (Cons x xs)
  show ?case
  proof (cases "P x")
    case False
    with Cons.prems have "filter P xs = ys @ z # zs" by simp
    then obtain as bs where "xs = as @ z # bs" "filter P as = ys"
      using Cons.IH by blast
    with False have "x # xs = (x # as) @ z # bs \<and> filter P (x # as) = ys" by simp
    then show ?thesis by blast
  next
    case True
    show ?thesis
    proof (cases ys)
      case Nil
      with True Cons.prems have "x # xs = [] @ z # xs \<and> filter P [] = ys" by simp
      then show ?thesis by blast
    next
      case (Cons y ys')
      with True Cons.prems have "x = y" "filter P xs = ys' @ z # zs" by simp_all
      then obtain as bs where "xs = as @ z # bs" "filter P as = ys'"
        using Cons.IH by blast
      with True \<open>x = y\<close> Cons have "x # xs = (x # as) @ z # bs \<and> filter P (x # as) = ys"
        by simp
      then show ?thesis by blast
    qed
  qed
qed

lemma build_data_tar_paths:
  "build_data_tar data_dir =
     map add_path (filter is_dir (rglob [] data_dir) @ filter is_file (rglob [] data_dir))"
  by (simp add: build_data_tar_def)

lemma build_data_tar_lists_directory:
  assumes "has_dir data_dir q st"
  shows "(q, IsDir st) \<in> set (filter is_dir (rglob [] data_dir))"
  using rglob_lists_directory [OF assms, of "[]"] by (simp add: is_dir_def)

lemma build_data_tar_parent_first:
  assumes "filter is_dir (rglob [] data_dir) @ filter is_file (rglob [] data_dir) =
      xs @ (p, k) # ys"
    and "q \<noteq> []" "below q p"
  shows "\<exists>st. (q, IsDir st) \<in> set xs"
proof -
  from assms(2) have root: "below [] q" by (simp add: below_def)
  from in_second_part [OF assms(1)] show ?thesis
  proof (elim disjE exE conjE)
    fix us
    assume "filter is_dir (rglob [] data_dir) = xs @ (p, k) # us"
    then have "\<exists>as bs. rglob [] data_dir = as @ (p, k) # bs \<and> filter is_dir as = xs"
      by (rule filter_eq_append_ConsD)
    then obtain as bs where split: "rglob [] data_dir = as @ (p, k) # bs" "filter is_dir as = xs"
      by blast
    from split(1) root assms(3) have "\<exists>st. (q, IsDir st) \<in> set as"
      by (rule rglob_parent_first(1))
    then obtain st where "(q, IsDir st) \<in> set as" ..
    then have "(q, IsDir st) \<in> set (filter is_dir as)" by (simp add: is_dir_def)
    with split(2) show ?thesis by blast
  next
    fix us
    assume xs: "xs = filter is_dir (rglob [] data_dir) @ us"
      and "filter is_file (rglob [] data_dir) = us @ (p, k) # ys"
    then have "(p, k) \<in> set (filter is_file (rglob [] data_dir))" by simp
    then have "(p, k) \<in> set (rglob [] data_dir)" by simp
    then have "\<exists>as bs. rglob [] data_dir = as @ (p, k) # bs" by (rule split_list)
    then obtain as bs where whole: "rglob [] data_dir = as @ (p, k) # bs" by blast
    from this root assms(3) have "\<exists>st. (q, IsDir st) \<in> set as"
      by (rule rglob_parent_first(1))
    then obtain st where "(q, IsDir st) \<in> set as" ..
    then have "(q, IsDir st) \<in> set (filter is_dir (rglob [] data_dir))"
      unfolding whole by (simp add: is_dir_def)
    then have "(q, IsDir st) \<in> set xs" unfolding xs by simp
    then show ?thesis ..
  qed
qed

end
